theory Spec2Isabelle
  imports Main "HOL-Library.Sublist"
begin

section \<open>Host-side volume connectors: a model of \<open>initiator/connector.py\<close>\<close>

text \<open>
  The development follows the Python module function by function. Python strings are
  modelled as \<^typ>\<open>string\<close> (code points below 256), Python integers as \<^typ>\<open>int\<close>,
  exceptions as values of the type \<open>error\<close>, and every interaction with the host (external
  commands, sleeping, the device tree) through an explicit history of events and an
  environment of oracles that answer from that history.
\<close>

subsection \<open>Exceptions\<close>

datatype error =
    KeyError string
  | IndexError
  | StopIteration
  | ValueError string
  | ProcessExecutionError int
  | TargetPortalNotFound string
  | VolumeDeviceNotFound "string list"
  | NoFibreChannelHostsFound
  | NoFibreChannelVolumeDeviceFound
  | BlockDeviceReadOnly

subsection \<open>Formatting integers\<close>

definition digit_char :: "nat \<Rightarrow> char" where
  "digit_char d = ''0123456789abcdef'' ! d"

function digits_of :: "nat \<Rightarrow> nat \<Rightarrow> string" where
  "digits_of b n =
     (if b < 2 \<or> n < b then [digit_char n] else digits_of b (n div b) @ [digit_char (n mod b)])"
  by pat_completeness auto
termination
  by (relation "measure (\<lambda>(b, n). n)") auto

declare digits_of.simps [simp del]

text \<open>\<open>str(i)\<close>, as \<open>"%s" % i\<close> prints an integer.\<close>

definition str_of_int :: "int \<Rightarrow> string" where
  "str_of_int i = (if i < 0 then ''-'' else '''') @ digits_of 10 (nat \<bar>i\<bar>)"

text \<open>\<open>"%0Wx" % i\<close>: lower-case hexadecimal, the sign first, then zeros up to width \<open>W\<close>.\<close>

definition fmt_0x :: "nat \<Rightarrow> int \<Rightarrow> string" where
  "fmt_0x w i =
     (let sgn = (if i < 0 then ''-'' else ''''); ds = digits_of 16 (nat \<bar>i\<bar>)
      in sgn @ replicate (w - length sgn - length ds) CHR ''0'' @ ds)"

text \<open>Reading a hexadecimal string back, used to state what the formatted digits denote.\<close>

definition hex_digit_val :: "char \<Rightarrow> nat option" where
  "hex_digit_val c =
     (let n = (of_char c :: nat)
      in if 48 \<le> n \<and> n \<le> 57 then Some (n - 48)
         else if 97 \<le> n \<and> n \<le> 102 then Some (n - 87) else None)"

fun hex_val_acc :: "nat \<Rightarrow> string \<Rightarrow> nat option" where
  "hex_val_acc a [] = Some a"
| "hex_val_acc a (c # cs) =
     (case hex_digit_val c of None \<Rightarrow> None | Some d \<Rightarrow> hex_val_acc (16 * a + d) cs)"

definition hex_val :: "string \<Rightarrow> nat option" where
  "hex_val s = (if s = [] then None else hex_val_acc 0 s)"

subsection \<open>Connection properties\<close>

text \<open>
  The connection-properties dictionary, with the keys the connectors read. A key that is
  absent from the dictionary is \<open>None\<close>. The Fibre Channel key \<open>target_wwn\<close> holds a
  list of strings, a single string, or a value of another type.
\<close>

datatype wwn_ports = WwnList "string list" | WwnString string | WwnOther

record conn_props =
  target_portal :: "string option"
  target_iqn :: "string option"
  target_lun :: "int option"
  target_portals :: "string list option"
  target_iqns :: "string list option"
  target_luns :: "int list option"
  auth_method :: "string option"
  auth_username :: "string option"
  auth_password :: "string option"
  discovery_auth_method :: "string option"
  discovery_auth_username :: "string option"
  discovery_auth_password :: "string option"
  target_wwn :: "wwn_ports option"
  access_mode :: "string option"

definition no_props :: conn_props where
  "no_props = \<lparr> target_portal = None, target_iqn = None, target_lun = None,
     target_portals = None, target_iqns = None, target_luns = None,
     auth_method = None, auth_username = None, auth_password = None,
     discovery_auth_method = None, discovery_auth_username = None,
     discovery_auth_password = None, target_wwn = None, access_mode = None \<rparr>"

text \<open>\<open>d[key]\<close>: a missing key raises \<open>KeyError\<close>.\<close>

definition subscript :: "string \<Rightarrow> 'a option \<Rightarrow> error + 'a" where
  "subscript key v = (case v of None \<Rightarrow> Inl (KeyError key) | Some x \<Rightarrow> Inr x)"

text \<open>Python's \<open>zip\<close> of three sequences stops with the shortest.\<close>

definition zip3 :: "'a list \<Rightarrow> 'b list \<Rightarrow> 'c list \<Rightarrow> ('a \<times> 'b \<times> 'c) list" where
  "zip3 xs ys zs = zip xs (zip ys zs)"

subsection \<open>\<open>ISCSIConnector._get_all_targets\<close>\<close>

definition get_all_targets :: "conn_props \<Rightarrow> error + (string \<times> string \<times> int) list" where
  "get_all_targets props =
     (case (target_portals props, target_iqns props, target_luns props) of
        (Some ps, Some qs, Some ls) \<Rightarrow> Inr (zip3 ps qs ls)
      | _ \<Rightarrow>
         (case subscript ''target_portal'' (target_portal props) of
            Inl e \<Rightarrow> Inl e
          | Inr p \<Rightarrow>
             (case subscript ''target_iqn'' (target_iqn props) of
                Inl e \<Rightarrow> Inl e
              | Inr q \<Rightarrow>
                 Inr [(p, q, (case target_lun props of None \<Rightarrow> 0 | Some l \<Rightarrow> l))])))"

subsection \<open>\<open>FibreChannelConnectorS390X._get_lun_string\<close>\<close>

datatype lun_string = LunInt int | LunStr string

definition get_lun_string :: "int \<Rightarrow> lun_string" where
  "get_lun_string lun =
     (if lun \<le> 0xffff then LunStr (''0x'' @ fmt_0x 4 lun @ ''000000000000'')
      else if lun \<le> 0xffffffff then LunStr (''0x'' @ fmt_0x 8 lun @ ''00000000'')
      else LunInt 0)"

subsection \<open>Python string operations\<close>

text \<open>
  \<open>str.splitlines()\<close> breaks a string at line boundaries (line feed, carriage return, a
  carriage return followed by a line feed, vertical tab, form feed, the file, group and
  record separators and NEL), without a last empty line.
\<close>

definition is_linebreak :: "char \<Rightarrow> bool" where
  "is_linebreak c = ((of_char c :: nat) \<in> set [10, 11, 12, 13, 28, 29, 30, 133])"

function splitlines :: "string \<Rightarrow> string list" where
  "splitlines s =
     (if s = [] then []
      else (case dropWhile (\<lambda>c. \<not> is_linebreak c) s of
              [] \<Rightarrow> [s]
            | c # r \<Rightarrow>
                takeWhile (\<lambda>c. \<not> is_linebreak c) s
                  # splitlines (if c = CHR 0x0D \<and> r \<noteq> [] \<and> hd r = CHR 0x0A then tl r else r)))"
  by pat_completeness auto
termination
proof (relation "measure length", goal_cases)
  case 1
  show ?case by simp
next
  case (2 s c r)
  have "length (dropWhile (\<lambda>c. \<not> is_linebreak c) s) \<le> length s"
    by (rule length_dropWhile_le)
  with 2 have "length r < length s" by simp
  moreover have "length (tl r) \<le> length r" by simp
  ultimately show ?case by auto
qed

declare splitlines.simps [simp del]

text \<open>
  \<open>str.split()\<close> with no separator: the maximal runs of characters that are not white
  space.
\<close>

definition is_space :: "char \<Rightarrow> bool" where
  "is_space c = ((of_char c :: nat) \<in> set [9, 10, 11, 12, 13, 28, 29, 30, 31, 32, 133, 160])"

function split_ws :: "string \<Rightarrow> string list" where
  "split_ws s =
     (case dropWhile is_space s of
        [] \<Rightarrow> []
      | c # r \<Rightarrow> takeWhile (\<lambda>c. \<not> is_space c) (c # r)
                  # split_ws (dropWhile (\<lambda>c. \<not> is_space c) (c # r)))"
  by pat_completeness auto
termination
proof (relation "measure length", goal_cases)
  case 1
  show ?case by simp
next
  case (2 s c r)
  have a: "length (dropWhile is_space s) \<le> length s"
    by (rule length_dropWhile_le)
  have nsp: "\<not> is_space c"
    using 2 hd_dropWhile [of is_space s] by (metis list.sel(1) list.simps(3))
  have "length (dropWhile (\<lambda>c. \<not> is_space c) r) \<le> length r"
    by (rule length_dropWhile_le)
  then have "length (dropWhile (\<lambda>c. \<not> is_space c) (c # r)) < length (c # r)"
    using nsp by simp
  with a 2 show ?case by simp
qed

declare split_ws.simps [simp del]

text \<open>\<open>str.split(sep)\<close> for a one-character separator: every occurrence separates.\<close>

fun split_on :: "char \<Rightarrow> string \<Rightarrow> string list" where
  "split_on sep [] = [[]]"
| "split_on sep (c # cs) =
     (if c = sep then [] # split_on sep cs
      else (case split_on sep cs of
              [] \<Rightarrow> [[c]]
            | w # ws \<Rightarrow> (c # w) # ws))"

text \<open>\<open>sub in s\<close> for strings.\<close>

fun contains :: "string \<Rightarrow> string \<Rightarrow> bool" where
  "contains sub [] = (sub = [])"
| "contains sub (c # cs) = (prefix sub (c # cs) \<or> contains sub cs)"

text \<open>
  \<open>str.upper()\<close> and \<open>str.lower()\<close> on the letters \<open>a\<close> to \<open>z\<close>; every other character
  is left as it is.
\<close>

definition upper_char :: "char \<Rightarrow> char" where
  "upper_char c =
     (case map_of (zip ''abcdefghijklmnopqrstuvwxyz'' ''ABCDEFGHIJKLMNOPQRSTUVWXYZ'') c of
        None \<Rightarrow> c | Some u \<Rightarrow> u)"

definition lower_char :: "char \<Rightarrow> char" where
  "lower_char c =
     (case map_of (zip ''ABCDEFGHIJKLMNOPQRSTUVWXYZ'' ''abcdefghijklmnopqrstuvwxyz'') c of
        None \<Rightarrow> c | Some u \<Rightarrow> u)"

definition upper :: "string \<Rightarrow> string" where
  "upper s = map upper_char s"

definition lower :: "string \<Rightarrow> string" where
  "lower s = map lower_char s"

text \<open>Truth value of an optional string: a missing key, \<open>None\<close> and \<open>""\<close> are false.\<close>

definition truthy :: "string option \<Rightarrow> bool" where
  "truthy v = (case v of None \<Rightarrow> False | Some s \<Rightarrow> s \<noteq> [])"

subsection \<open>The host\<close>

text \<open>
  What a connector does to the host is recorded, in order, as a history of events. What
  the host answers (the exit code and output of a command, whether a path exists, what a
  glob pattern matches, what the driver and the SCSI utilities report) is given by an
  environment of oracles, each a function of the history so far. A Fibre Channel HBA
  descriptor is a dictionary, written as an association list, or \<open>None\<close>.
\<close>

type_synonym hba = "(string \<times> string) list option"

datatype event =
    Exec "string list"
  | Sleep int
  | RemoveScsiDevice string
  | WaitForVolumeRemoval string
  | RescanHosts "hba list"
  | WaitForRw string string

type_synonym history = "event list"

record host =
  run :: "history \<Rightarrow> string list \<Rightarrow> int \<times> string"
  path_exists :: "history \<Rightarrow> string \<Rightarrow> bool"
  realpath :: "history \<Rightarrow> string \<Rightarrow> string"
  glob_paths :: "history \<Rightarrow> string \<Rightarrow> string list"
  set_order :: "string list \<Rightarrow> string list"
  all_block_devices :: "history \<Rightarrow> string list"
  name_from_path :: "history \<Rightarrow> string \<Rightarrow> string option"
  utility_error :: "history \<Rightarrow> event \<Rightarrow> error option"
  fc_hbas_info :: "history \<Rightarrow> hba list"
  scsi_wwn :: "history \<Rightarrow> string \<Rightarrow> error + string"
  multipath_device_path :: "history \<Rightarrow> string \<Rightarrow> string option"
  multipath_device :: "history \<Rightarrow> string \<Rightarrow> string option"

text \<open>
  A computation takes the history and returns a value or an exception together with the
  extended history.
\<close>

type_synonym 'a prog = "history \<Rightarrow> (error + 'a) \<times> history"

definition return :: "'a \<Rightarrow> 'a prog" where
  "return x h = (Inr x, h)"

definition raise :: "error \<Rightarrow> 'a prog" where
  "raise e h = (Inl e, h)"

definition bind :: "'a prog \<Rightarrow> ('a \<Rightarrow> 'b prog) \<Rightarrow> 'b prog" where
  "bind m f h = (case m h of (Inl e, h') \<Rightarrow> (Inl e, h') | (Inr x, h') \<Rightarrow> f x h')"

text \<open>\<open>try: m except ProcessExecutionError as exc: handler(exc.exit_code)\<close>\<close>

definition catch_exit_code :: "'a prog \<Rightarrow> (int \<Rightarrow> 'a prog) \<Rightarrow> 'a prog" where
  "catch_exit_code m handler h =
     (case m h of
        (Inl (ProcessExecutionError rc), h') \<Rightarrow> handler rc h'
      | other \<Rightarrow> other)"

text \<open>A value that may be an exception, read without touching the host.\<close>

definition lift :: "error + 'a \<Rightarrow> 'a prog" where
  "lift v h = (v, h)"

text \<open>
  The command runner: the command is run (whatever retries it is given happen inside the
  runner), and an exit code outside \<open>check_exit_code\<close> raises \<open>ProcessExecutionError\<close>
  carrying it. The result is the command's standard output.
\<close>

definition execute :: "host \<Rightarrow> int list \<Rightarrow> string list \<Rightarrow> string prog" where
  "execute env check_exit_code cmd h =
     (let (rc, out) = run env h cmd
      in (if rc \<in> set check_exit_code then Inr out else Inl (ProcessExecutionError rc),
          h @ [Exec cmd]))"

text \<open>
  A call into the SCSI or the Fibre Channel utility that changes the host: it is recorded,
  and raises what the utility raises.
\<close>

definition utility :: "host \<Rightarrow> event \<Rightarrow> unit prog" where
  "utility env e h =
     ((case utility_error env h e of None \<Rightarrow> Inr () | Some err \<Rightarrow> Inl err), h @ [e])"

text \<open>Time slept in a history, and the commands run in it.\<close>

fun total_sleep :: "history \<Rightarrow> int" where
  "total_sleep [] = 0"
| "total_sleep (Sleep n # es) = n + total_sleep es"
| "total_sleep (e # es) = total_sleep es"

fun commands :: "history \<Rightarrow> string list list" where
  "commands [] = []"
| "commands (Exec c # es) = c # commands es"
| "commands (e # es) = commands es"

subsection \<open>Running \<open>iscsiadm\<close>\<close>

definition node_command :: "string \<Rightarrow> string \<Rightarrow> string list \<Rightarrow> string list" where
  "node_command iqn portal iscsi_command =
     [''iscsiadm'', ''-m'', ''node'', ''-T'', iqn, ''-p'', portal] @ iscsi_command"

definition run_iscsiadm :: "host \<Rightarrow> conn_props \<Rightarrow> string list \<Rightarrow> int list \<Rightarrow> string prog" where
  "run_iscsiadm env props iscsi_command check_exit_code =
     bind (lift (subscript ''target_iqn'' (target_iqn props))) (\<lambda>iqn.
     bind (lift (subscript ''target_portal'' (target_portal props))) (\<lambda>portal.
     execute env check_exit_code (node_command iqn portal iscsi_command)))"

definition update_command :: "string \<Rightarrow> string \<Rightarrow> string list" where
  "update_command property_key property_value =
     [''--op'', ''update'', ''-n'', property_key, ''-v'', property_value]"

definition iscsiadm_update ::
  "host \<Rightarrow> conn_props \<Rightarrow> string \<Rightarrow> string \<Rightarrow> int list \<Rightarrow> string prog" where
  "iscsiadm_update env props property_key property_value check_exit_code =
     run_iscsiadm env props (update_command property_key property_value) check_exit_code"

definition run_iscsiadm_bare :: "host \<Rightarrow> string list \<Rightarrow> int list \<Rightarrow> string prog" where
  "run_iscsiadm_bare env iscsi_command check_exit_code =
     execute env check_exit_code (''iscsiadm'' # iscsi_command)"

definition rescan_iscsi :: "host \<Rightarrow> unit prog" where
  "rescan_iscsi env =
     bind (run_iscsiadm_bare env [''-m'', ''node'', ''--rescan''] [0, 1, 21, 255]) (\<lambda>_.
     bind (run_iscsiadm_bare env [''-m'', ''session'', ''--rescan''] [0, 1, 21, 255]) (\<lambda>_.
     return ()))"

subsection \<open>\<open>ISCSIConnector._get_target_portals_from_iscsiadm_output\<close>\<close>

fun get_target_portals_loop :: "string list list \<Rightarrow> (string \<times> string) list \<Rightarrow> (string \<times> string) list" where
  "get_target_portals_loop [] targets = targets"
| "get_target_portals_loop (data # rest) targets =
     get_target_portals_loop rest
       (if length data = 2 \<and> prefix ''iqn.'' (data ! 1)
        then targets @ [(data ! 0, data ! 1)] else targets)"

definition get_target_portals_from_iscsiadm_output :: "string \<Rightarrow> (string \<times> string) list" where
  "get_target_portals_from_iscsiadm_output output =
     get_target_portals_loop (map split_ws (splitlines output)) []"

subsection \<open>Targets and device paths\<close>

definition iterate_all_targets :: "conn_props \<Rightarrow> error + conn_props list" where
  "iterate_all_targets props =
     (case get_all_targets props of
        Inl e \<Rightarrow> Inl e
      | Inr ts \<Rightarrow>
          Inr (map (\<lambda>(ip, iqn, lun).
                 props\<lparr>target_portal := Some ip, target_iqn := Some iqn, target_lun := Some lun,
                   target_portals := None, target_iqns := None, target_luns := None\<rparr>) ts))"

definition iscsi_path :: "string \<times> string \<times> int \<Rightarrow> string" where
  "iscsi_path x = (case x of (portal, iqn, lun) \<Rightarrow>
     ''ip-'' @ portal @ ''-iscsi-'' @ iqn @ ''-lun-'' @ str_of_int lun)"

definition get_device_path :: "host \<Rightarrow> string \<Rightarrow> conn_props \<Rightarrow> history \<Rightarrow> error + string list" where
  "get_device_path env transport props h =
     (case get_all_targets props of
        Inl e \<Rightarrow> Inl e
      | Inr ts \<Rightarrow>
          if transport = ''default''
          then Inr (map (\<lambda>x. ''/dev/disk/by-path/'' @ iscsi_path x) ts)
          else Inr (concat (map (\<lambda>x. glob_paths env h (''/dev/disk/by-path/*'' @ iscsi_path x)) ts)))"

text \<open>
  A computation emits \<open>P\<close> when, from every history, it only appends events that satisfy
  \<open>P\<close>.
\<close>

definition emits :: "(event \<Rightarrow> bool) \<Rightarrow> 'a prog \<Rightarrow> bool" where
  "emits P m = (\<forall>h. \<exists>r evs. m h = (r, h @ evs) \<and> list_all P evs)"

text \<open>A read of the host that may raise, as a computation.\<close>

definition observe :: "(history \<Rightarrow> error + 'a) \<Rightarrow> 'a prog" where
  "observe f h = (f h, h)"

subsection \<open>\<open>ISCSIConnector._connect_to_iscsi_portal\<close>\<close>

text \<open>
  The list of active sessions: of every line that starts with \<open>tcp:\<close>, the third and the
  fourth of its fields separated by single spaces. A line with fewer fields raises
  \<open>IndexError\<close>.
\<close>

fun session_entries :: "string list \<Rightarrow> error + (string \<times> string) list" where
  "session_entries [] = Inr []"
| "session_entries (p # ps) =
     (if prefix ''tcp:'' p
      then (if length (split_on CHR '' '' p) \<le> 3 then Inl IndexError
            else (case session_entries ps of
                    Inl e \<Rightarrow> Inl e
                  | Inr rest \<Rightarrow> Inr ((split_on CHR '' '' p ! 2, split_on CHR '' '' p ! 3) # rest)))
      else session_entries ps)"

definition session_matches :: "conn_props \<Rightarrow> string \<Rightarrow> string \<times> string \<Rightarrow> bool" where
  "session_matches props stripped_portal s =
     (stripped_portal = hd (split_on CHR '','' (fst s)) \<and> Some (snd s) = target_iqn props)"

text \<open>
  The body of \<open>_connect_to_iscsi_portal\<close> in its two parts. First the node record is
  probed, created when the probe says that there is none, and given the authentication
  parameters.
\<close>

definition prepare_node :: "host \<Rightarrow> string \<Rightarrow> conn_props \<Rightarrow> unit prog" where
  "prepare_node env transport props =
     bind (catch_exit_code (run_iscsiadm env props [] [0])
            (\<lambda>rc. if rc \<in> set [21, 255]
                  then run_iscsiadm env props [''--interface'', transport, ''--op'', ''new''] [0]
                  else raise (ProcessExecutionError rc))) (\<lambda>_.
     if truthy (auth_method props)
     then
       bind (lift (subscript ''auth_method'' (auth_method props))) (\<lambda>method.
       bind (iscsiadm_update env props ''node.session.auth.authmethod'' method [0]) (\<lambda>_.
       bind (lift (subscript ''auth_username'' (auth_username props))) (\<lambda>username.
       bind (iscsiadm_update env props ''node.session.auth.username'' username [0]) (\<lambda>_.
       bind (lift (subscript ''auth_password'' (auth_password props))) (\<lambda>password.
       bind (iscsiadm_update env props ''node.session.auth.password'' password [0]) (\<lambda>_.
       return ()))))))
     else return ())"

text \<open>
  Then the active sessions are listed, and the login is run when none of them is a session
  of the target.
\<close>

definition login_unless_session :: "host \<Rightarrow> conn_props \<Rightarrow> bool prog" where
  "login_unless_session env props =
     bind (run_iscsiadm_bare env [''-m'', ''session''] [0, 1, 21]) (\<lambda>out.
     bind (lift (session_entries (splitlines out))) (\<lambda>portals.
     bind (lift (subscript ''target_portal'' (target_portal props))) (\<lambda>portal.
       if length portals = 0
          \<or> length (filter (session_matches props (hd (split_on CHR '','' portal))) portals) = 0
       then
         bind (catch_exit_code
                 (bind (run_iscsiadm env props [''--login''] [0, 255]) (\<lambda>_. return True))
                 (\<lambda>rc. if rc \<notin> set [15] then return False else return True)) (\<lambda>logged_in.
           if logged_in
           then bind (iscsiadm_update env props ''node.startup'' ''automatic'' [0]) (\<lambda>_.
                return True)
           else return False)
       else return True)))"

definition connect_to_iscsi_portal :: "host \<Rightarrow> string \<Rightarrow> conn_props \<Rightarrow> bool prog" where
  "connect_to_iscsi_portal env transport props =
     bind (prepare_node env transport props) (\<lambda>_. login_unless_session env props)"

text \<open>The commands of the second part.\<close>

definition session_command :: "string list" where
  "session_command = [''iscsiadm'', ''-m'', ''session'']"

definition login_command :: "string \<Rightarrow> string \<Rightarrow> string list" where
  "login_command iqn portal = node_command iqn portal [''--login'']"

definition startup_command :: "string \<Rightarrow> string \<Rightarrow> string \<Rightarrow> string list" where
  "startup_command iqn portal startup =
     node_command iqn portal (update_command ''node.startup'' startup)"

subsection \<open>\<open>ISCSIConnector._disconnect_from_iscsi_portal\<close>\<close>

definition disconnect_from_iscsi_portal :: "host \<Rightarrow> conn_props \<Rightarrow> unit prog" where
  "disconnect_from_iscsi_portal env props =
     bind (iscsiadm_update env props ''node.startup'' ''manual'' [0, 21, 255]) (\<lambda>_.
     bind (run_iscsiadm env props [''--logout''] [0, 21, 255]) (\<lambda>_.
     bind (run_iscsiadm env props [''--op'', ''delete''] [0, 21, 255]) (\<lambda>_.
     return ())))"

subsection \<open>\<open>ISCSIConnector._disconnect_volume_iscsi\<close>\<close>

text \<open>The block devices of the driver that still count as luns of the target in use.\<close>

definition devices_in_use :: "host \<Rightarrow> string \<Rightarrow> history \<Rightarrow> string list" where
  "devices_in_use env device_byname h =
     filter (\<lambda>dev. (contains device_byname dev \<and> prefix ''/dev/disk/by-path/'' dev)
                   \<and> path_exists env h dev)
       (all_block_devices env h)"

definition disconnect_volume_iscsi :: "host \<Rightarrow> string \<Rightarrow> conn_props \<Rightarrow> unit prog" where
  "disconnect_volume_iscsi env transport props =
     bind (observe (get_device_path env transport props)) (\<lambda>host_devices.
       case host_devices of
         [] \<Rightarrow> return ()
       | host_device # _ \<Rightarrow>
           bind (observe (\<lambda>h. Inr (name_from_path env h host_device))) (\<lambda>dev_name.
           bind (if truthy dev_name
                 then bind (utility env (RemoveScsiDevice (the dev_name))) (\<lambda>_.
                      utility env (WaitForVolumeRemoval host_device))
                 else return ()) (\<lambda>_.
           bind (lift (subscript ''target_portal'' (target_portal props))) (\<lambda>portal.
           bind (lift (subscript ''target_iqn'' (target_iqn props))) (\<lambda>iqn.
           bind (observe (\<lambda>h. Inr (devices_in_use env
                   (''ip-'' @ portal @ ''-iscsi-'' @ iqn @ ''-lun-'') h))) (\<lambda>devices.
             if devices = [] then disconnect_from_iscsi_portal env props
             else return ()))))))"

subsection \<open>\<open>ISCSIConnector._discover_iscsi_portals\<close>\<close>

definition run_iscsiadm_update_discoverydb :: "host \<Rightarrow> conn_props \<Rightarrow> string prog" where
  "run_iscsiadm_update_discoverydb env props =
     bind (lift (subscript ''target_portal'' (target_portal props))) (\<lambda>portal.
     bind (lift (subscript ''discovery_auth_method'' (discovery_auth_method props))) (\<lambda>method.
     bind (lift (subscript ''discovery_auth_username'' (discovery_auth_username props))) (\<lambda>username.
     bind (lift (subscript ''discovery_auth_password'' (discovery_auth_password props))) (\<lambda>password.
     execute env [0]
       [''iscsiadm'', ''-m'', ''discoverydb'', ''-t'', ''sendtargets'', ''-p'', portal,
        ''--op'', ''update'',
        ''-n'', ''discovery.sendtargets.auth.authmethod'', ''-v'', method,
        ''-n'', ''discovery.sendtargets.auth.username'', ''-v'', username,
        ''-n'', ''discovery.sendtargets.auth.password'', ''-v'', password]))))"

definition discover_iscsi_portals :: "host \<Rightarrow> conn_props \<Rightarrow> (string \<times> string) list prog" where
  "discover_iscsi_portals env props =
     (case (target_portals props, target_iqns props) of
        (Some ps, Some qs) \<Rightarrow> return (zip ps qs)
      | _ \<Rightarrow>
        bind (if truthy (discovery_auth_method props)
              then
                bind (catch_exit_code (run_iscsiadm_update_discoverydb env props)
                       (\<lambda>rc. if rc = 6
                             then
                               bind (lift (subscript ''target_portal'' (target_portal props))) (\<lambda>portal.
                               bind (run_iscsiadm_bare env
                                       [''-m'', ''discoverydb'', ''-t'', ''sendtargets'',
                                        ''-p'', portal, ''--op'', ''new''] [0, 255]) (\<lambda>_.
                               run_iscsiadm_update_discoverydb env props))
                             else raise (ProcessExecutionError rc))) (\<lambda>_.
                bind (lift (subscript ''target_portal'' (target_portal props))) (\<lambda>portal.
                run_iscsiadm_bare env
                  [''-m'', ''discoverydb'', ''-t'', ''sendtargets'', ''-p'', portal, ''--discover'']
                  [0, 255]))
              else
                bind (lift (subscript ''target_portal'' (target_portal props))) (\<lambda>portal.
                run_iscsiadm_bare env
                  [''-m'', ''discovery'', ''-t'', ''sendtargets'', ''-p'', portal] [0, 255]))
          (\<lambda>out. return (get_target_portals_from_iscsiadm_output out)))"

subsection \<open>\<open>ISCSIConnector.connect_volume\<close>\<close>

text \<open>
  The multipath branch replaces the discovered pairs when \<open>target_iqns\<close> is missing or
  empty. A Python set is iterated in an order of its own, \<open>set_order\<close> of the environment;
  its size is the number of distinct elements.
\<close>

definition multipath_targets :: "host \<Rightarrow> string \<Rightarrow> (string \<times> string) list \<Rightarrow> (string \<times> string) list" where
  "multipath_targets env main_iqn ips_iqns =
     (let all_portals = map fst ips_iqns;
          match_portals = map fst (filter (\<lambda>(ip, iqn). iqn = main_iqn) ips_iqns)
      in if card (set all_portals) = card (set match_portals)
         then zip (set_order env all_portals) (replicate (card (set all_portals)) main_iqn)
         else ips_iqns)"

fun connect_each :: "host \<Rightarrow> string \<Rightarrow> conn_props \<Rightarrow> (string \<times> string) list \<Rightarrow> unit prog" where
  "connect_each env transport props [] = return ()"
| "connect_each env transport props (x # xs) =
     bind (connect_to_iscsi_portal env transport
             (props\<lparr>target_portal := Some (fst x), target_iqn := Some (snd x)\<rparr>)) (\<lambda>_.
     connect_each env transport props xs)"

fun first_connected :: "host \<Rightarrow> string \<Rightarrow> conn_props \<Rightarrow> conn_props list \<Rightarrow> conn_props prog" where
  "first_connected env transport target_props [] = return target_props"
| "first_connected env transport target_props (props # rest) =
     bind (connect_to_iscsi_portal env transport props) (\<lambda>connected.
       if connected then return props
       else first_connected env transport target_props rest)"

text \<open>
  The first part of \<open>connect_volume\<close>: sessions are established and the candidate device
  paths computed. The result is \<open>host_devices\<close> and \<open>target_props\<close> (which the multipath
  branch does not set and the rest does not read there).
\<close>

definition connect_volume_sessions ::
  "host \<Rightarrow> bool \<Rightarrow> string \<Rightarrow> conn_props \<Rightarrow> (string list \<times> conn_props) prog" where
  "connect_volume_sessions env use_multipath transport props =
     (if use_multipath
      then
        bind (\<lambda>h. case discover_iscsi_portals env props h of
                     (Inl e, h') \<Rightarrow>
                       (case subscript ''target_portal'' (target_portal props) of
                          Inl k \<Rightarrow> (Inl k, h')
                        | Inr portal \<Rightarrow> (Inl (TargetPortalNotFound portal), h'))
                   | (Inr found, h') \<Rightarrow> (Inr found, h')) (\<lambda>found.
        bind (if target_iqns props = None \<or> target_iqns props = Some []
              then bind (lift (subscript ''target_iqn'' (target_iqn props))) (\<lambda>main_iqn.
                   return (multipath_targets env main_iqn found))
              else return found) (\<lambda>ips_iqns.
        bind (connect_each env transport props ips_iqns) (\<lambda>_.
        bind (rescan_iscsi env) (\<lambda>_.
        bind (observe (get_device_path env transport props)) (\<lambda>host_devices.
        return (host_devices, props))))))
      else
        bind (lift (iterate_all_targets props)) (\<lambda>targets.
        bind (first_connected env transport props targets) (\<lambda>target_props.
        bind (observe (get_device_path env transport target_props)) (\<lambda>host_devices.
        return (host_devices, target_props)))))"

text \<open>One pass of the rescan inside the waiting loop.\<close>

definition rescan_step ::
  "host \<Rightarrow> bool \<Rightarrow> string \<Rightarrow> conn_props \<Rightarrow> string list \<Rightarrow> int \<Rightarrow> string list prog" where
  "rescan_step env use_multipath transport target_props host_devices tries =
     (if use_multipath
      then bind (rescan_iscsi env) (\<lambda>_. return host_devices)
      else
        bind (if tries \<noteq> 0 then observe (get_device_path env transport target_props)
              else return host_devices) (\<lambda>host_devices.
        bind (run_iscsiadm env target_props [''--rescan''] [0]) (\<lambda>_.
        return host_devices)))"

text \<open>
  The loop that waits for one of the candidate paths to exist. It returns the candidate
  paths and the number of rescans made.
\<close>

function connect_volume_wait ::
  "host \<Rightarrow> bool \<Rightarrow> string \<Rightarrow> int \<Rightarrow> conn_props \<Rightarrow> string list \<Rightarrow> int
     \<Rightarrow> (string list \<times> int) prog" where
  "connect_volume_wait env use_multipath transport device_scan_attempts target_props
       host_devices tries h =
     (if list_all (\<lambda>x. \<not> path_exists env h x) host_devices
      then
        if tries \<ge> device_scan_attempts
        then (Inl (VolumeDeviceNotFound host_devices), h)
        else
          (case rescan_step env use_multipath transport target_props host_devices tries h of
             (Inl e, h') \<Rightarrow> (Inl e, h')
           | (Inr host_devices', h') \<Rightarrow>
               if list_all (\<lambda>x. \<not> path_exists env h' x) host_devices'
               then connect_volume_wait env use_multipath transport device_scan_attempts
                      target_props host_devices' (tries + 1) (h' @ [Sleep ((tries + 1) ^ 2)])
               else (Inr (host_devices', tries + 1), h'))
      else (Inr (host_devices, tries), h))"
  by pat_completeness auto
termination
  by (relation "measure (\<lambda>(env, mp, tr, attempts, props, devs, tries, h). nat (attempts - tries))")
     auto

declare connect_volume_wait.simps [simp del]

text \<open>
  \<open>connect_volume\<close> up to the choice of the accessible host device. Without multipath this
  device is the path of the returned device information.
\<close>

definition connect_volume_host_device ::
  "host \<Rightarrow> bool \<Rightarrow> string \<Rightarrow> int \<Rightarrow> conn_props \<Rightarrow> string prog" where
  "connect_volume_host_device env use_multipath transport device_scan_attempts props =
     bind (connect_volume_sessions env use_multipath transport props) (\<lambda>(host_devices, target_props).
     bind (connect_volume_wait env use_multipath transport device_scan_attempts target_props
             host_devices 0) (\<lambda>(host_devices, tries).
     observe (\<lambda>h. case find (path_exists env h) host_devices of
                    None \<Rightarrow> Inl StopIteration
                  | Some host_device \<Rightarrow> Inr host_device)))"

text \<open>The commands of one rescan in the waiting loop.\<close>

definition rescan_commands :: "bool \<Rightarrow> string \<Rightarrow> string \<Rightarrow> string list list" where
  "rescan_commands use_multipath iqn portal =
     (if use_multipath
      then [[''iscsiadm'', ''-m'', ''node'', ''--rescan''],
            [''iscsiadm'', ''-m'', ''session'', ''--rescan'']]
      else [node_command iqn portal [''--rescan'']])"

text \<open>The commands of \<open>_disconnect_from_iscsi_portal\<close>.\<close>

definition logout_commands :: "string \<Rightarrow> string \<Rightarrow> string list list" where
  "logout_commands iqn portal =
     [startup_command iqn portal ''manual'',
      node_command iqn portal [''--logout''],
      node_command iqn portal [''--op'', ''delete'']]"

text \<open>The events of the removal of the device in \<open>_disconnect_volume_iscsi\<close>.\<close>

definition removal_events :: "host \<Rightarrow> history \<Rightarrow> string \<Rightarrow> event list" where
  "removal_events env h host_device =
     (if truthy (name_from_path env h host_device)
      then [RemoveScsiDevice (the (name_from_path env h host_device)),
            WaitForVolumeRemoval host_device]
      else [])"

text \<open>
  Establishing the session of a target begins with the probe of its node record,
  \<open>iscsiadm -m node -T iqn -p portal\<close> with no further argument.
\<close>

definition is_probe :: "string list \<Rightarrow> bool" where
  "is_probe c = (length c = 7 \<and> c = node_command (c ! 4) (c ! 6) [])"

subsection \<open>The Fibre Channel connector\<close>

text \<open>
  \<open>_get_pci_num\<close>: the path component before the first one that starts with \<open>net\<close> or
  \<open>host\<close>. Python reads index \<open>-1\<close>, the last component, when that one is the first.
\<close>

fun pci_num_scan :: "string \<Rightarrow> string list \<Rightarrow> string option" where
  "pci_num_scan previous [] = None"
| "pci_num_scan previous (v # rest) =
     (if prefix ''net'' v \<or> prefix ''host'' v then Some previous
      else pci_num_scan v rest)"

definition get_pci_num :: "hba \<Rightarrow> string option" where
  "get_pci_num hba =
     (case hba of
        None \<Rightarrow> None
      | Some d \<Rightarrow>
          (case map_of d ''device_path'' of
             None \<Rightarrow> None
           | Some p \<Rightarrow>
               (let device_path = split_on CHR ''/'' p
                in pci_num_scan (last device_path) device_path)))"

definition get_possible_devices :: "hba list \<Rightarrow> wwn_ports \<Rightarrow> (string \<times> string) list" where
  "get_possible_devices hbas wwnports =
     (let wwns = (case wwnports of
                    WwnList ws \<Rightarrow> ws
                  | WwnString w \<Rightarrow> [w]
                  | WwnOther \<Rightarrow> [])
      in concat (map (\<lambda>hba. case get_pci_num hba of
                              None \<Rightarrow> []
                            | Some pci_num \<Rightarrow> map (\<lambda>wwn. (pci_num, ''0x'' @ lower wwn)) wwns)
                   hbas))"

definition get_host_devices :: "(string \<times> string) list \<Rightarrow> int \<Rightarrow> string list" where
  "get_host_devices possible_devs lun =
     map (\<lambda>(pci_num, wwn).
            ''/dev/disk/by-path/pci-'' @ pci_num @ ''-fc-'' @ wwn @ ''-lun-'' @ str_of_int lun)
       possible_devs"

definition get_possible_volume_paths :: "conn_props \<Rightarrow> hba list \<Rightarrow> error + string list" where
  "get_possible_volume_paths props hbas =
     (case subscript ''target_wwn'' (target_wwn props) of
        Inl e \<Rightarrow> Inl e
      | Inr ports \<Rightarrow>
          Inr (get_host_devices (get_possible_devices hbas ports)
                 (case target_lun props of None \<Rightarrow> 0 | Some lun \<Rightarrow> lun)))"

text \<open>
  The looping call of \<open>connect_volume\<close>: \<open>_wait_for_device_discovery\<close> is run every two
  seconds until it finds a device or raises. It returns \<open>host_device\<close> and \<open>device_name\<close>.
\<close>

function wait_for_device_discovery ::
  "host \<Rightarrow> int \<Rightarrow> hba list \<Rightarrow> string list \<Rightarrow> int \<Rightarrow> (string \<times> string) prog" where
  "wait_for_device_discovery env device_scan_attempts hbas host_devices tries h =
     (case find (path_exists env h) host_devices of
        Some device \<Rightarrow> (Inr (device, realpath env h device), h)
      | None \<Rightarrow>
          if tries \<ge> device_scan_attempts
          then (Inl NoFibreChannelVolumeDeviceFound, h)
          else (case utility env (RescanHosts hbas) h of
                  (Inl e, h') \<Rightarrow> (Inl e, h')
                | (Inr u, h') \<Rightarrow>
                    wait_for_device_discovery env device_scan_attempts hbas host_devices
                      (tries + 1) (h' @ [Sleep 2])))"
  by pat_completeness auto
termination
  by (relation "measure (\<lambda>(env, attempts, hbas, devs, tries, h). nat (attempts - tries))") auto

declare wait_for_device_discovery.simps [simp del]

record device_info =
  info_type :: string
  info_path :: string
  info_multipath_id :: "string option"

definition fc_connect_volume :: "host \<Rightarrow> bool \<Rightarrow> int \<Rightarrow> conn_props \<Rightarrow> device_info prog" where
  "fc_connect_volume env use_multipath device_scan_attempts props =
     bind (observe (\<lambda>h. Inr (fc_hbas_info env h))) (\<lambda>hbas.
     bind (lift (get_possible_volume_paths props hbas)) (\<lambda>host_devices.
       if length host_devices = 0 then raise NoFibreChannelHostsFound
       else
         bind (wait_for_device_discovery env device_scan_attempts hbas host_devices 0)
           (\<lambda>(host_device, device_name).
         bind (observe (\<lambda>h. scsi_wwn env h host_device)) (\<lambda>device_wwn.
           if use_multipath
           then
             bind (observe (\<lambda>h. Inr (multipath_device_path env h device_wwn))) (\<lambda>path.
             bind (case path of
                     Some p \<Rightarrow> return (p, Some device_wwn)
                   | None \<Rightarrow>
                       bind (observe (\<lambda>h. Inr (multipath_device env h device_name))) (\<lambda>mpath_info.
                         case mpath_info of
                           Some device \<Rightarrow> return (device, Some device_wwn)
                         | None \<Rightarrow> return (host_device, None))) (\<lambda>(device_path, multipath_id).
             bind (if access_mode props \<noteq> Some ''ro''
                   then (\<lambda>h. case utility env (WaitForRw device_wwn device_path) h of
                               (Inl BlockDeviceReadOnly, h') \<Rightarrow> (Inr (), h')
                             | other \<Rightarrow> other)
                   else return ()) (\<lambda>_.
             return \<lparr> info_type = ''block'', info_path = device_path,
                      info_multipath_id = multipath_id \<rparr>)))
           else
             return \<lparr> info_type = ''block'', info_path = host_device,
                      info_multipath_id = None \<rparr>))))"

subsection \<open>\<open>InitiatorConnector.factory\<close>\<close>

text \<open>
  The connector classes, with what the factory itself decides of their constructor
  arguments: the \<open>transport\<close> keyword of the iSCSI connector (the caller's, replaced by
  \<open>iser\<close> for the ISER protocol) and the mount type of the remote file system connector.
\<close>

datatype connector =
    ISCSIConnector "string option"
  | FibreChannelConnectorS390X
  | FibreChannelConnector
  | AoEConnector
  | RemoteFsConnector string
  | StorPoolConnector
  | LocalConnector
  | HuaweiStorHyperConnector
  | HGSTConnector
  | RBDConnector
  | ScaleIOConnector

definition protocols :: "string list" where
  "protocols = [''ISCSI'', ''ISER'', ''FIBRE_CHANNEL'', ''AOE'', ''NFS'', ''GLUSTERFS'',
     ''STORPOOL'', ''LOCAL'', ''HUAWEISDSHYPERVISOR'', ''HGST'', ''RBD'', ''SCALEIO'',
     ''SCALITY'']"

text \<open>
  \<open>platform_machine\<close> is the architecture of the running host, read when \<open>arch\<close> is not
  given; \<open>transport\<close> is the caller's keyword argument of that name, if any.
\<close>

definition factory :: "string \<Rightarrow> string option \<Rightarrow> string \<Rightarrow> string option \<Rightarrow> error + connector" where
  "factory platform_machine transport protocol arch =
     (let arch = (case arch of None \<Rightarrow> platform_machine | Some a \<Rightarrow> a);
          protocol = upper protocol
      in if protocol \<in> set [''ISCSI'', ''ISER'']
         then Inr (ISCSIConnector (if protocol = ''ISER'' then Some ''iser'' else transport))
         else if protocol = ''FIBRE_CHANNEL''
         then (if arch \<in> set [''s390'', ''s390x'']
               then Inr FibreChannelConnectorS390X
               else Inr FibreChannelConnector)
         else if protocol = ''AOE'' then Inr AoEConnector
         else if protocol \<in> set [''NFS'', ''GLUSTERFS'', ''SCALITY'']
         then Inr (RemoteFsConnector (lower protocol))
         else if protocol = ''STORPOOL'' then Inr StorPoolConnector
         else if protocol = ''LOCAL'' then Inr LocalConnector
         else if protocol = ''HUAWEISDSHYPERVISOR'' then Inr HuaweiStorHyperConnector
         else if protocol = ''HGST'' then Inr HGSTConnector
         else if protocol = ''RBD'' then Inr RBDConnector
         else if protocol = ''SCALEIO'' then Inr ScaleIOConnector
         else Inl (ValueError (''Invalid InitiatorConnector protocol specified '' @ protocol)))"

subsection \<open>Target lines, in the words of the specification\<close>

text \<open>
  A line splits into exactly the two tokens \<open>portal\<close> and \<open>iqn\<close> when it consists of
  optional white space, \<open>portal\<close>, white space, \<open>iqn\<close> and optional white space, where the
  two tokens are not empty and hold no white space.
\<close>

definition two_tokens :: "string \<Rightarrow> string \<Rightarrow> string \<Rightarrow> bool" where
  "two_tokens line portal iqn =
     (\<exists>w0 w1 w2. line = w0 @ portal @ w1 @ iqn @ w2
        \<and> list_all is_space w0 \<and> list_all is_space w1 \<and> list_all is_space w2 \<and> w1 \<noteq> []
        \<and> portal \<noteq> [] \<and> list_all (\<lambda>c. \<not> is_space c) portal
        \<and> iqn \<noteq> [] \<and> list_all (\<lambda>c. \<not> is_space c) iqn)"

subsection \<open>A host for examples\<close>

text \<open>
  A host on which every command exits with code 0 and prints nothing, no path exists,
  no glob pattern matches, the driver reports no block device, the utilities raise
  nothing and find nothing, and a set is iterated in the order of first insertion.
\<close>

definition quiet_host :: host where
  "quiet_host = \<lparr> run = (\<lambda>h cmd. (0, [])), path_exists = (\<lambda>h p. False),
     realpath = (\<lambda>h p. p), glob_paths = (\<lambda>h pat. []), set_order = remdups,
     all_block_devices = (\<lambda>h. []), name_from_path = (\<lambda>h p. None),
     utility_error = (\<lambda>h e. None), fc_hbas_info = (\<lambda>h. []),
     scsi_wwn = (\<lambda>h p. Inr []), multipath_device_path = (\<lambda>h w. None),
     multipath_device = (\<lambda>h d. None) \<rparr>"

text \<open>
  A Fibre Channel example: one HBA at PCI address \<open>0000:05:00.3\<close>, two target WWNs and
  lun 1, on a host where the device of the second WWN appears after the first rescan.
\<close>

definition example_hbas :: "hba list" where
  "example_hbas = [Some [(''device_path'',
     ''/sys/devices/pci0000:00/0000:00:03.0/0000:05:00.3/host2/fc_host/host2'')]]"

definition example_fc_props :: conn_props where
  "example_fc_props = no_props\<lparr>target_wwn := Some (WwnList [''5000ABC1'', ''5000abc2'']),
     target_lun := Some 1\<rparr>"

definition example_fc_host :: host where
  "example_fc_host = quiet_host\<lparr>fc_hbas_info := (\<lambda>h. example_hbas),
     path_exists := (\<lambda>h p. h \<noteq> []
        \<and> p = ''/dev/disk/by-path/pci-0000:05:00.3-fc-0x5000abc2-lun-1'')\<rparr>"

text \<open>An iSCSI example: one target, given by the singular keys.\<close>

definition example_iscsi_props :: conn_props where
  "example_iscsi_props = no_props\<lparr>target_portal := Some ''10.0.0.5:3260'',
     target_iqn := Some ''iqn.2010-x:vol1'', target_lun := Some 0\<rparr>"

definition example_iscsi_path :: string where
  "example_iscsi_path = ''/dev/disk/by-path/ip-10.0.0.5:3260-iscsi-iqn.2010-x:vol1-lun-0''"

definition example_rescan :: "string list" where
  "example_rescan = [''iscsiadm'', ''-m'', ''node'', ''-T'', ''iqn.2010-x:vol1'',
     ''-p'', ''10.0.0.5:3260'', ''--rescan'']"

text \<open>
  A host with one active session, of another target, on which the login to the example
  target exits with the code \<open>rc\<close>.
\<close>

definition example_sessions :: string where
  "example_sessions = ''tcp: [1] 10.0.0.9:3260,1 iqn.2010-x:other (non-flash)''"

definition example_login_host :: "int \<Rightarrow> host" where
  "example_login_host rc = quiet_host\<lparr>run := (\<lambda>h cmd.
     if cmd = session_command then (0, example_sessions)
     else if cmd = login_command ''iqn.2010-x:vol1'' ''10.0.0.5:3260'' then (rc, [])
     else (0, []))\<rparr>"

text \<open>
  A host for disconnecting lun 0 of the example target while the driver still reports the
  device of lun 1 of the same target, which exists or not.
\<close>

definition example_other_lun :: string where
  "example_other_lun = ''/dev/disk/by-path/ip-10.0.0.5:3260-iscsi-iqn.2010-x:vol1-lun-1''"

definition example_disconnect_host :: "bool \<Rightarrow> host" where
  "example_disconnect_host other_present = quiet_host\<lparr>
     name_from_path := (\<lambda>h p. Some ''sdb''),
     all_block_devices := (\<lambda>h. [example_other_lun]),
     path_exists := (\<lambda>h p. other_present \<and> p = example_other_lun)\<rparr>"

text \<open>
  A host whose discovery at the example portal finds the example iqn at two portals; no
  session is active and every command exits with code 0.
\<close>

definition example_discovery :: "string list" where
  "example_discovery = [''iscsiadm'', ''-m'', ''discovery'', ''-t'', ''sendtargets'',
     ''-p'', ''10.0.0.5:3260'']"

definition example_discovered :: string where
  "example_discovered =
     ''10.0.0.1:3260,1 iqn.2010-x:vol1\<newline>10.0.0.2:3260,1 iqn.2010-x:vol1\<newline>''"

definition example_multipath_host :: host where
  "example_multipath_host = quiet_host\<lparr>run := (\<lambda>h cmd.
     if cmd = example_discovery then (0, example_discovered) else (0, []))\<rparr>"

text \<open>
  The same host with one active session, of the example iqn at the first of the two
  portals.
\<close>

definition example_active_session :: string where
  "example_active_session = ''tcp: [1] 10.0.0.1:3260,1 iqn.2010-x:vol1 (non-flash)''"

definition example_session_host :: host where
  "example_session_host = quiet_host\<lparr>run := (\<lambda>h cmd.
     if cmd = example_discovery then (0, example_discovered)
     else if cmd = session_command then (0, example_active_session)
     else (0, []))\<rparr>"

section \<open>Properties\<close>

subsection \<open>Computations\<close>

lemma bind_Inr: "m h = (Inr x, h') \<Longrightarrow> bind m f h = f x h'"
  by (simp add: bind_def)

lemma bind_Inl: "m h = (Inl e, h') \<Longrightarrow> bind m f h = (Inl e, h')"
  by (simp add: bind_def)

lemma bind_result:
  "bind m f h = (Inr y, h2) \<Longrightarrow> \<exists>x h1. m h = (Inr x, h1) \<and> f x h1 = (Inr y, h2)"
  by (auto simp: bind_def split: prod.splits sum.splits)

lemma execute_eq:
  "execute env codes cmd h =
     (if fst (run env h cmd) \<in> set codes then Inr (snd (run env h cmd))
      else Inl (ProcessExecutionError (fst (run env h cmd))), h @ [Exec cmd])"
  by (cases "run env h cmd") (simp add: execute_def)

lemma run_iscsiadm_eq:
  "target_iqn props = Some iqn \<Longrightarrow> target_portal props = Some portal \<Longrightarrow>
     run_iscsiadm env props args codes = execute env codes (node_command iqn portal args)"
  by (rule ext) (simp add: run_iscsiadm_def bind_def lift_def subscript_def)

lemma emitsD: "emits P m \<Longrightarrow> \<exists>r evs. m h = (r, h @ evs) \<and> list_all P evs"
  by (simp add: emits_def)

lemma emits_return: "emits P (return x)"
  by (simp add: emits_def return_def)

lemma emits_raise: "emits P (raise e)"
  by (simp add: emits_def raise_def)

lemma emits_lift: "emits P (lift v)"
  by (simp add: emits_def lift_def)

lemma emits_observe: "emits P (observe f)"
  by (simp add: emits_def observe_def)

lemma emits_execute: "P (Exec cmd) \<Longrightarrow> emits P (execute env codes cmd)"
  by (simp add: emits_def execute_eq)

lemma emits_utility: "P e \<Longrightarrow> emits P (utility env e)"
  by (simp add: emits_def utility_def)

lemma emits_bind:
  assumes "emits P m" "\<And>x. emits P (f x)"
  shows "emits P (bind m f)"
  unfolding emits_def
proof
  fix h
  from assms(1) obtain r evs where m: "m h = (r, h @ evs)" "list_all P evs"
    unfolding emits_def by blast
  show "\<exists>r evs. bind m f h = (r, h @ evs) \<and> list_all P evs"
  proof (cases r)
    case (Inl e)
    with m show ?thesis by (auto simp: bind_def)
  next
    case (Inr x)
    from assms(2) [of x] obtain r' evs' where f: "f x (h @ evs) = (r', (h @ evs) @ evs')" "list_all P evs'"
      unfolding emits_def by blast
    with m Inr have "bind m f h = (r', h @ (evs @ evs'))" "list_all P (evs @ evs')"
      by (simp_all add: bind_def)
    then show ?thesis by blast
  qed
qed

lemma emits_catch:
  assumes "emits P m" "\<And>rc. emits P (handler rc)"
  shows "emits P (catch_exit_code m handler)"
  unfolding emits_def
proof
  fix h
  from assms(1) obtain r evs where m: "m h = (r, h @ evs)" "list_all P evs"
    unfolding emits_def by blast
  show "\<exists>r evs. catch_exit_code m handler h = (r, h @ evs) \<and> list_all P evs"
  proof (cases "\<exists>rc. r = Inl (ProcessExecutionError rc)")
    case True
    then obtain rc where rc: "r = Inl (ProcessExecutionError rc)" by blast
    from assms(2) [of rc] obtain r' evs' where f: "handler rc (h @ evs) = (r', (h @ evs) @ evs')" "list_all P evs'"
      unfolding emits_def by blast
    with m rc have "catch_exit_code m handler h = (r', h @ (evs @ evs'))" "list_all P (evs @ evs')"
      by (simp_all add: catch_exit_code_def)
    then show ?thesis by blast
  next
    case False
    then have "catch_exit_code m handler h = (r, h @ evs)"
      using m by (auto simp: catch_exit_code_def split: sum.splits error.splits)
    with m show ?thesis by blast
  qed
qed

lemma emits_if: "emits P a \<Longrightarrow> emits P b \<Longrightarrow> emits P (if c then a else b)"
  by simp

lemma emits_run_iscsiadm:
  "(\<And>iqn portal. P (Exec (node_command iqn portal args))) \<Longrightarrow> emits P (run_iscsiadm env props args codes)"
  unfolding run_iscsiadm_def by (intro emits_bind emits_lift emits_execute)

subsection \<open>Target enumeration\<close>

lemma zip3_length: "length (zip3 xs ys zs) = min (length xs) (min (length ys) (length zs))"
  by (simp add: zip3_def)

lemma zip3_nth:
  "i < length (zip3 xs ys zs) \<Longrightarrow> zip3 xs ys zs ! i = (xs ! i, ys ! i, zs ! i)"
  by (simp add: zip3_def)

text \<open>
  C6. When \<open>target_portals\<close>, \<open>target_iqns\<close> and \<open>target_luns\<close> are all present (here with
  the same length \<open>n\<close>), the targets are the \<open>n\<close> triples of the entries at the same index,
  in order. Otherwise, with \<open>target_portal\<close> and \<open>target_iqn\<close> present, there is the one
  target \<open>(target_portal, target_iqn, target_lun)\<close>, the lun being 0 when it is absent.
\<close>

theorem get_all_targets_enumeration:
  "(target_portals props = Some ps \<and> target_iqns props = Some qs \<and> target_luns props = Some ls
      \<and> length ps = n \<and> length qs = n \<and> length ls = n \<longrightarrow>
      (\<exists>ts. get_all_targets props = Inr ts \<and> length ts = n
         \<and> (\<forall>i < n. ts ! i = (ps ! i, qs ! i, ls ! i))))
   \<and> ((target_portals props = None \<or> target_iqns props = None \<or> target_luns props = None)
      \<and> target_portal props = Some p \<and> target_iqn props = Some q \<longrightarrow>
      get_all_targets props = Inr [(p, q, (case target_lun props of None \<Rightarrow> 0 | Some l \<Rightarrow> l))])"
proof (intro conjI impI)
  assume a: "target_portals props = Some ps \<and> target_iqns props = Some qs
    \<and> target_luns props = Some ls \<and> length ps = n \<and> length qs = n \<and> length ls = n"
  then have eq: "get_all_targets props = Inr (zip3 ps qs ls)"
    by (simp add: get_all_targets_def)
  have len: "length (zip3 ps qs ls) = n" using a by (simp add: zip3_length)
  have "\<forall>i < n. zip3 ps qs ls ! i = (ps ! i, qs ! i, ls ! i)"
    using len zip3_nth by blast
  with eq len show "\<exists>ts. get_all_targets props = Inr ts \<and> length ts = n
         \<and> (\<forall>i < n. ts ! i = (ps ! i, qs ! i, ls ! i))" by blast
next
  assume "(target_portals props = None \<or> target_iqns props = None \<or> target_luns props = None)
      \<and> target_portal props = Some p \<and> target_iqn props = Some q"
  then show "get_all_targets props = Inr [(p, q, (case target_lun props of None \<Rightarrow> 0 | Some l \<Rightarrow> l))]"
    by (auto simp: get_all_targets_def subscript_def split: option.splits)
qed

theorem get_all_targets_enumeration_witness:
  "get_all_targets (no_props\<lparr>target_portals := Some [''10.0.0.1:3260'', ''10.0.0.2:3260''],
       target_iqns := Some [''iqn.a'', ''iqn.b''], target_luns := Some [1, 2]\<rparr>)
     = Inr [(''10.0.0.1:3260'', ''iqn.a'', 1), (''10.0.0.2:3260'', ''iqn.b'', 2)]
   \<and> get_all_targets (no_props\<lparr>target_portal := Some ''10.0.0.5:3260'',
       target_iqn := Some ''iqn.2010-x:vol1''\<rparr>)
     = Inr [(''10.0.0.5:3260'', ''iqn.2010-x:vol1'', 0)]"
proof -
  let ?P = "no_props\<lparr>target_portals := Some [''10.0.0.1:3260'', ''10.0.0.2:3260''],
       target_iqns := Some [''iqn.a'', ''iqn.b''], target_luns := Some [1, 2]\<rparr>"
  let ?Q = "no_props\<lparr>target_portal := Some ''10.0.0.5:3260'',
       target_iqn := Some ''iqn.2010-x:vol1''\<rparr>"
  from get_all_targets_enumeration [of ?P "[''10.0.0.1:3260'', ''10.0.0.2:3260'']"
      "[''iqn.a'', ''iqn.b'']" "[1, 2]" 2]
  obtain ts where ts: "get_all_targets ?P = Inr ts" "length ts = 2"
      "\<forall>i < 2. ts ! i = ([''10.0.0.1:3260'', ''10.0.0.2:3260''] ! i, [''iqn.a'', ''iqn.b''] ! i, [1, 2] ! i)"
    by (auto simp: no_props_def)
  from ts(3) have "ts ! 0 = (''10.0.0.1:3260'', ''iqn.a'', 1)" "ts ! 1 = (''10.0.0.2:3260'', ''iqn.b'', 2)"
    by simp_all
  with ts(2) have "ts = [(''10.0.0.1:3260'', ''iqn.a'', 1), (''10.0.0.2:3260'', ''iqn.b'', 2)]"
    by (cases ts; cases "tl ts") auto
  moreover from get_all_targets_enumeration [of ?Q _ _ _ _ "''10.0.0.5:3260''" "''iqn.2010-x:vol1''"]
  have "get_all_targets ?Q = Inr [(''10.0.0.5:3260'', ''iqn.2010-x:vol1'', 0)]"
    by (simp add: no_props_def)
  ultimately show ?thesis using ts(1) by simp
qed

text \<open>
  C9. When the three plural keys are present, whatever their lengths, target enumeration
  raises nothing: it returns as many targets as the shortest of the three lists has
  entries, made of the first entries of each list.
\<close>

theorem get_all_targets_truncates:
  "target_portals props = Some ps \<Longrightarrow> target_iqns props = Some qs \<Longrightarrow> target_luns props = Some ls \<Longrightarrow>
     \<exists>ts. get_all_targets props = Inr ts
       \<and> length ts = min (length ps) (min (length qs) (length ls))
       \<and> ts = zip3 (take (length ts) ps) (take (length ts) qs) (take (length ts) ls)"
  by (simp add: get_all_targets_def zip3_def take_zip [symmetric])

theorem get_all_targets_truncates_witness:
  "get_all_targets (no_props\<lparr>target_portals := Some [''p1'', ''p2'', ''p3''],
       target_iqns := Some [''iqn.a'', ''iqn.b''], target_luns := Some [5]\<rparr>)
     = Inr [(''p1'', ''iqn.a'', 5)]"
proof -
  let ?P = "no_props\<lparr>target_portals := Some [''p1'', ''p2'', ''p3''],
       target_iqns := Some [''iqn.a'', ''iqn.b''], target_luns := Some [5]\<rparr>"
  from get_all_targets_truncates [of ?P "[''p1'', ''p2'', ''p3'']" "[''iqn.a'', ''iqn.b'']" "[5]"]
  obtain ts where "get_all_targets ?P = Inr ts" "length ts = 1"
    "ts = zip3 (take (length ts) [''p1'', ''p2'', ''p3'']) (take (length ts) [''iqn.a'', ''iqn.b'']) (take (length ts) [5])"
    by (auto simp: no_props_def)
  then show ?thesis by (simp add: zip3_def)
qed

subsection \<open>The S390X lun string\<close>

lemma digit_char_all: "\<forall>d \<in> set [0 ..< 16]. hex_digit_val (digit_char d) = Some d"
  by code_simp

lemma digit_char_val: "d < 16 \<Longrightarrow> hex_digit_val (digit_char d) = Some d"
  using digit_char_all by simp

lemma hex_val_acc_append:
  "hex_val_acc a (xs @ ys) = (case hex_val_acc a xs of None \<Rightarrow> None | Some b \<Rightarrow> hex_val_acc b ys)"
  by (induction xs arbitrary: a) (auto split: option.splits)

lemma hex_val_acc_digits:
  "hex_val_acc a (digits_of 16 n) = Some (a * 16 ^ length (digits_of 16 n) + n)"
proof (induction "16::nat" n arbitrary: a rule: digits_of.induct)
  case (1 n)
  show ?case
  proof (cases "n < 16")
    case True
    then show ?thesis
      by (subst digits_of.simps, subst digits_of.simps) (simp add: digit_char_val)
  next
    case False
    then have ih: "\<And>a. hex_val_acc a (digits_of 16 (n div 16))
        = Some (a * 16 ^ length (digits_of 16 (n div 16)) + n div 16)"
      using 1 by simp
    have unf: "digits_of 16 n = digits_of 16 (n div 16) @ [digit_char (n mod 16)]"
      using False by (subst digits_of.simps) simp
    show ?thesis
      by (simp add: unf hex_val_acc_append ih digit_char_val algebra_simps)
  qed
qed

lemma hex_val_acc_zeros: "hex_val_acc 0 (replicate k CHR ''0'' @ s) = hex_val_acc 0 s"
  by (induction k) (auto simp: hex_digit_val_def)

lemma digits_of_length: "n < 16 ^ k \<Longrightarrow> 0 < k \<Longrightarrow> length (digits_of 16 n) \<le> k"
proof (induction "16::nat" n arbitrary: k rule: digits_of.induct)
  case (1 n)
  show ?case
  proof (cases "n < 16")
    case True
    then show ?thesis using 1(3) by (subst digits_of.simps) simp
  next
    case False
    with 1(2) have k1: "1 < k" by (cases k; cases "k - 1") auto
    then obtain j where j: "k = Suc j" "0 < j" by (cases k) auto
    have "n div 16 < 16 ^ j" using 1(2) j by (simp add: less_mult_imp_div_less mult.commute)
    then have "length (digits_of 16 (n div 16)) \<le> j" using 1(1) False j by simp
    then show ?thesis using False j by (subst digits_of.simps) simp
  qed
qed

lemma digits_of_nonempty: "digits_of b n \<noteq> []"
  by (subst digits_of.simps) simp

lemma fmt_0x_nonneg:
  assumes "0 \<le> i" "nat i < 16 ^ w" "0 < w"
  shows "length (fmt_0x w i) = w" "hex_val (fmt_0x w i) = Some (nat i)"
proof -
  let ?ds = "digits_of 16 (nat i)"
  have le: "length ?ds \<le> w" using assms digits_of_length by simp
  have eq: "fmt_0x w i = replicate (w - length ?ds) CHR ''0'' @ ?ds"
    using assms by (simp add: fmt_0x_def Let_def)
  show "length (fmt_0x w i) = w" using le by (simp add: eq)
  show "hex_val (fmt_0x w i) = Some (nat i)"
    by (simp add: eq hex_val_def digits_of_nonempty hex_val_acc_zeros hex_val_acc_digits)
qed

text \<open>
  C10. For \<open>0 \<le> lun \<le> 0xffff\<close> the lun string is \<open>0x\<close>, four hexadecimal digits that
  denote \<open>lun\<close>, and twelve zeros; for \<open>0xffff < lun \<le> 0xffffffff\<close> it is \<open>0x\<close>, eight
  hexadecimal digits that denote \<open>lun\<close>, and eight zeros; both are 18 characters long. For
  a larger \<open>lun\<close> the result is the integer 0, not a string.
\<close>

theorem get_lun_string_encoding:
  "(0 \<le> lun \<and> lun \<le> 0xffff \<longrightarrow>
      (\<exists>d. get_lun_string lun = LunStr (''0x'' @ d @ ''000000000000'') \<and> length d = 4
         \<and> hex_val d = Some (nat lun) \<and> length (''0x'' @ d @ ''000000000000'') = 18))
   \<and> (0xffff < lun \<and> lun \<le> 0xffffffff \<longrightarrow>
      (\<exists>d. get_lun_string lun = LunStr (''0x'' @ d @ ''00000000'') \<and> length d = 8
         \<and> hex_val d = Some (nat lun) \<and> length (''0x'' @ d @ ''00000000'') = 18))
   \<and> (0xffffffff < lun \<longrightarrow> get_lun_string lun = LunInt 0)"
proof (intro conjI impI)
  assume a: "0 \<le> lun \<and> lun \<le> 0xffff"
  then have "nat lun < 65536" by linarith
  then have "nat lun < 16 ^ 4" by simp
  with a have "length (fmt_0x 4 lun) = 4" "hex_val (fmt_0x 4 lun) = Some (nat lun)"
    using fmt_0x_nonneg [of lun 4] by simp_all
  moreover have "get_lun_string lun = LunStr (''0x'' @ fmt_0x 4 lun @ ''000000000000'')"
    using a by (simp add: get_lun_string_def)
  ultimately show "\<exists>d. get_lun_string lun = LunStr (''0x'' @ d @ ''000000000000'') \<and> length d = 4
         \<and> hex_val d = Some (nat lun) \<and> length (''0x'' @ d @ ''000000000000'') = 18"
    by simp
next
  assume a: "0xffff < lun \<and> lun \<le> 0xffffffff"
  then have "nat lun < 4294967296" by linarith
  then have "nat lun < 16 ^ 8" by simp
  with a have "length (fmt_0x 8 lun) = 8" "hex_val (fmt_0x 8 lun) = Some (nat lun)"
    using fmt_0x_nonneg [of lun 8] by simp_all
  moreover have "get_lun_string lun = LunStr (''0x'' @ fmt_0x 8 lun @ ''00000000'')"
    using a by (simp add: get_lun_string_def)
  ultimately show "\<exists>d. get_lun_string lun = LunStr (''0x'' @ d @ ''00000000'') \<and> length d = 8
         \<and> hex_val d = Some (nat lun) \<and> length (''0x'' @ d @ ''00000000'') = 18"
    by simp
next
  assume "0xffffffff < lun"
  then show "get_lun_string lun = LunInt 0" by (simp add: get_lun_string_def)
qed

theorem get_lun_string_encoding_witness:
  "get_lun_string 0x1a = LunStr ''0x001a000000000000''
   \<and> get_lun_string 0x12345 = LunStr ''0x0001234500000000''
   \<and> get_lun_string 0x100000000 = LunInt 0"
proof -
  from get_lun_string_encoding [of "0x1a"]
  obtain d where d: "get_lun_string 0x1a = LunStr (''0x'' @ d @ ''000000000000'')"
      "hex_val d = Some (nat 0x1a)"
    by auto
  have a: "get_lun_string 0x1a = LunStr ''0x001a000000000000''"
    by (simp add: get_lun_string_def fmt_0x_def digits_of.simps digit_char_def numeral_2_eq_2
        numeral_3_eq_3)
  from get_lun_string_encoding [of "0x12345"]
  obtain d' where d': "get_lun_string 0x12345 = LunStr (''0x'' @ d' @ ''00000000'')"
      "hex_val d' = Some (nat 0x12345)"
    by auto
  have b: "get_lun_string 0x12345 = LunStr ''0x0001234500000000''"
    by (simp add: get_lun_string_def fmt_0x_def digits_of.simps digit_char_def numeral_2_eq_2
        numeral_3_eq_3)
  have c: "get_lun_string 0x100000000 = LunInt 0"
    using get_lun_string_encoding [of "0x100000000"] by simp
  show ?thesis using a b c d d' by simp
qed

subsection \<open>Parsing the discovery output\<close>

lemma get_target_portals_loop_eq:
  "get_target_portals_loop ds acc =
     acc @ map (\<lambda>d. (d ! 0, d ! 1)) (filter (\<lambda>d. length d = 2 \<and> prefix ''iqn.'' (d ! 1)) ds)"
  by (induction ds arbitrary: acc) auto

lemma split_ws_unfold_Nil: "dropWhile is_space s = [] \<Longrightarrow> split_ws s = []"
  by (subst split_ws.simps) (simp only: list.case)

lemma split_ws_unfold_Cons:
  "dropWhile is_space s = x \<Longrightarrow> x \<noteq> [] \<Longrightarrow>
     split_ws s = takeWhile (\<lambda>c. \<not> is_space c) x # split_ws (dropWhile (\<lambda>c. \<not> is_space c) x)"
  by (subst split_ws.simps, cases x) (simp_all only: list.case not_False_eq_True simp_thms)

lemma split_ws_spaces: "list_all is_space w \<Longrightarrow> split_ws (w @ s) = split_ws s"
proof -
  assume "list_all is_space w"
  then have "dropWhile is_space (w @ s) = dropWhile is_space s"
    by (induction w) auto
  then show ?thesis by (subst split_ws.simps, subst (2) split_ws.simps) (simp only:)
qed

lemma split_ws_all_spaces: "list_all is_space w \<Longrightarrow> split_ws w = []"
proof -
  assume "list_all is_space w"
  then have "dropWhile is_space w = []" by (induction w) auto
  then show ?thesis by (rule split_ws_unfold_Nil)
qed

lemma split_ws_token:
  assumes "t \<noteq> []" "list_all (\<lambda>c. \<not> is_space c) t" "s = [] \<or> is_space (hd s)"
  shows "split_ws (t @ s) = t # split_ws s"
proof -
  obtain c r where t: "t = c # r" using assms(1) by (cases t) auto
  have nsp: "\<forall>x \<in> set t. \<not> is_space x" using assms(2) by (simp add: list_all_iff)
  then have d: "dropWhile is_space (t @ s) = t @ s" using t by simp
  have tk: "takeWhile (\<lambda>c. \<not> is_space c) (t @ s) = t"
    using nsp assms(3) by (cases s) (auto simp: takeWhile_append2)
  have dr: "dropWhile (\<lambda>c. \<not> is_space c) (t @ s) = s"
    using nsp assms(3) by (cases s) (auto simp: dropWhile_append2)
  have "t @ s \<noteq> []" using assms(1) by simp
  from split_ws_unfold_Cons [OF d this] show ?thesis by (simp only: tk dr)
qed

lemma two_tokens_split: "two_tokens line p q \<Longrightarrow> split_ws line = [p, q]"
proof -
  assume "two_tokens line p q"
  then obtain w0 w1 w2 where w: "line = w0 @ p @ w1 @ q @ w2"
      "list_all is_space w0" "list_all is_space w1" "list_all is_space w2" "w1 \<noteq> []"
      "p \<noteq> []" "list_all (\<lambda>c. \<not> is_space c) p" "q \<noteq> []" "list_all (\<lambda>c. \<not> is_space c) q"
    unfolding two_tokens_def by blast
  have h1: "is_space (hd (w1 @ q @ w2))" using w(3,5) by (cases w1) auto
  have h2: "w2 = [] \<or> is_space (hd w2)" using w(4) by (cases w2) auto
  have "split_ws line = split_ws (p @ (w1 @ q @ w2))" using w(1,2) split_ws_spaces by simp
  also have "\<dots> = p # split_ws (w1 @ q @ w2)" using w(6,7) h1 by (intro split_ws_token) auto
  also have "split_ws (w1 @ q @ w2) = split_ws (q @ w2)" using w(3) by (rule split_ws_spaces)
  also have "\<dots> = q # split_ws w2" using w(8,9) h2 by (intro split_ws_token) auto
  also have "split_ws w2 = []" using w(4) by (rule split_ws_all_spaces)
  finally show ?thesis .
qed

lemma split_ws_Nil: "split_ws s = [] \<Longrightarrow> list_all is_space s"
proof -
  assume a: "split_ws s = []"
  have "dropWhile is_space s = []"
  proof (rule ccontr)
    assume n: "dropWhile is_space s \<noteq> []"
    from split_ws_unfold_Cons [OF refl n] a show False by simp
  qed
  then show ?thesis by (simp add: list_all_iff)
qed

lemma split_ws_Cons:
  assumes "split_ws s = t # ts"
  shows "\<exists>w r. s = w @ t @ r \<and> list_all is_space w \<and> t \<noteq> [] \<and> list_all (\<lambda>c. \<not> is_space c) t
           \<and> (r = [] \<or> is_space (hd r)) \<and> split_ws r = ts"
proof (cases "dropWhile is_space s")
  case Nil
  then have "split_ws s = []" by (rule split_ws_unfold_Nil)
  with assms show ?thesis by simp
next
  case (Cons c r0)
  let ?w = "takeWhile is_space s"
  let ?r = "dropWhile (\<lambda>c. \<not> is_space c) (c # r0)"
  have nsp: "\<not> is_space c" using Cons hd_dropWhile [of is_space s] by (metis list.sel(1) list.simps(3))
  have unf: "split_ws s = takeWhile (\<lambda>c. \<not> is_space c) (c # r0) # split_ws ?r"
    using split_ws_unfold_Cons [OF Cons] by simp
  with assms have t: "t = takeWhile (\<lambda>c. \<not> is_space c) (c # r0)" and ts: "split_ws ?r = ts"
    by simp_all
  have "s = ?w @ dropWhile is_space s" by simp
  also have "dropWhile is_space s = t @ ?r" using Cons t by simp
  finally have s: "s = ?w @ t @ ?r" .
  have w: "list_all is_space ?w" by (simp add: list_all_iff) (meson set_takeWhileD)
  have tne: "t \<noteq> []" using t nsp by simp
  have tns: "list_all (\<lambda>c. \<not> is_space c) t"
    unfolding t list_all_iff using set_takeWhileD by fastforce
  have r: "?r = [] \<or> is_space (hd ?r)"
    using hd_dropWhile [of "\<lambda>c. \<not> is_space c" "c # r0"] by blast
  show ?thesis using s w tne tns r ts by blast
qed

lemma split_two_tokens: "split_ws line = [p, q] \<Longrightarrow> two_tokens line p q"
proof -
  assume a: "split_ws line = [p, q]"
  from split_ws_Cons [OF a] obtain w0 r where 1: "line = w0 @ p @ r" "list_all is_space w0"
      "p \<noteq> []" "list_all (\<lambda>c. \<not> is_space c) p" "r = [] \<or> is_space (hd r)" "split_ws r = [q]"
    by blast
  from split_ws_Cons [OF 1(6)] obtain w1 r' where 2: "r = w1 @ q @ r'" "list_all is_space w1"
      "q \<noteq> []" "list_all (\<lambda>c. \<not> is_space c) q" "split_ws r' = []"
    by blast
  have w2: "list_all is_space r'" using 2(5) by (rule split_ws_Nil)
  have "w1 \<noteq> []"
  proof
    assume "w1 = []"
    with 2(1,3) have "r \<noteq> []" "hd r = hd q" by auto
    with 1(5) have "is_space (hd q)" by auto
    moreover have "\<not> is_space (hd q)" using 2(3,4) by (cases q) auto
    ultimately show False by simp
  qed
  with 1 2 w2 show ?thesis unfolding two_tokens_def by blast
qed

text \<open>
  C7. The parser of the discovery output returns, in the order of the lines, the two tokens
  of every line that splits into exactly two tokens of which the second starts with
  \<open>iqn.\<close>, and nothing for any other line; it is a total function, so no line makes it
  fail. Splitting into exactly two tokens is what the specification says: two non-empty
  runs without white space, separated and possibly surrounded by white space.
\<close>

theorem get_target_portals_from_iscsiadm_output_lines:
  "get_target_portals_from_iscsiadm_output output =
     map (\<lambda>line. (split_ws line ! 0, split_ws line ! 1))
       (filter (\<lambda>line. length (split_ws line) = 2 \<and> prefix ''iqn.'' (split_ws line ! 1))
          (splitlines output))
   \<and> (\<forall>line portal iqn. (split_ws line = [portal, iqn]) = two_tokens line portal iqn)"
proof
  show "get_target_portals_from_iscsiadm_output output =
     map (\<lambda>line. (split_ws line ! 0, split_ws line ! 1))
       (filter (\<lambda>line. length (split_ws line) = 2 \<and> prefix ''iqn.'' (split_ws line ! 1))
          (splitlines output))"
    by (simp add: get_target_portals_from_iscsiadm_output_def get_target_portals_loop_eq
        filter_map comp_def)
  show "\<forall>line portal iqn. (split_ws line = [portal, iqn]) = two_tokens line portal iqn"
    using two_tokens_split split_two_tokens by blast
qed

theorem get_target_portals_from_iscsiadm_output_lines_witness:
  "get_target_portals_from_iscsiadm_output
     ''10.0.0.1:3260,1 iqn.2010-10.org.openstack:volume-1\<newline>iscsiadm: debug noise here\<newline>  10.0.0.2:3260,1   iqn.x \<newline>10.0.0.3:3260,1 not-an-iqn\<newline>''
     = [(''10.0.0.1:3260,1'', ''iqn.2010-10.org.openstack:volume-1''), (''10.0.0.2:3260,1'', ''iqn.x'')]
   \<and> two_tokens ''  10.0.0.2:3260,1   iqn.x '' ''10.0.0.2:3260,1'' ''iqn.x''"
proof -
  let ?out = "''10.0.0.1:3260,1 iqn.2010-10.org.openstack:volume-1\<newline>iscsiadm: debug noise here\<newline>  10.0.0.2:3260,1   iqn.x \<newline>10.0.0.3:3260,1 not-an-iqn\<newline>''"
  note t = get_target_portals_from_iscsiadm_output_lines [of ?out]
  have 1: "map (\<lambda>line. (split_ws line ! 0, split_ws line ! 1))
       (filter (\<lambda>line. length (split_ws line) = 2 \<and> prefix ''iqn.'' (split_ws line ! 1))
          (splitlines ?out))
     = [(''10.0.0.1:3260,1'', ''iqn.2010-10.org.openstack:volume-1''), (''10.0.0.2:3260,1'', ''iqn.x'')]"
    by code_simp
  have 2: "split_ws ''  10.0.0.2:3260,1   iqn.x '' = [''10.0.0.2:3260,1'', ''iqn.x'']"
    by code_simp
  from t 1 2 show ?thesis by (simp only:)
qed

subsection \<open>The connector factory\<close>

lemma factory_in: "upper p \<in> set protocols \<Longrightarrow> \<exists>c. factory pm tr p arch = Inr c"
  by (auto simp: factory_def protocols_def Let_def)

text \<open>
  C8, as the code has it. Two protocol strings that are equal in upper case are treated
  alike, and a string whose upper case is in the enumeration yields a connector. For
  \<open>FIBRE_CHANNEL\<close> it is the S390X connector when the architecture (given, or else the
  host's) is \<open>s390\<close> or \<open>s390x\<close>, and the standard Fibre Channel connector otherwise. A
  string outside the enumeration raises a \<open>ValueError\<close> whose message ends with the
  protocol in upper case.
\<close>

theorem factory_dispatch:
  "(upper protocol = upper protocol' \<longrightarrow>
      factory pm tr protocol arch = factory pm tr protocol' arch)
   \<and> (upper protocol \<in> set protocols \<longrightarrow> (\<exists>c. factory pm tr protocol arch = Inr c))
   \<and> (upper protocol = ''FIBRE_CHANNEL'' \<longrightarrow>
        factory pm tr protocol arch =
          Inr (if (case arch of None \<Rightarrow> pm | Some a \<Rightarrow> a) \<in> {''s390'', ''s390x''}
               then FibreChannelConnectorS390X else FibreChannelConnector))
   \<and> (upper protocol \<notin> set protocols \<longrightarrow>
        factory pm tr protocol arch =
          Inl (ValueError (''Invalid InitiatorConnector protocol specified '' @ upper protocol)))"
proof (intro conjI impI)
  assume "upper protocol = upper protocol'"
  then show "factory pm tr protocol arch = factory pm tr protocol' arch"
    by (simp add: factory_def)
next
  assume "upper protocol \<in> set protocols"
  then show "\<exists>c. factory pm tr protocol arch = Inr c" by (rule factory_in)
next
  assume "upper protocol = ''FIBRE_CHANNEL''"
  then show "factory pm tr protocol arch =
          Inr (if (case arch of None \<Rightarrow> pm | Some a \<Rightarrow> a) \<in> {''s390'', ''s390x''}
               then FibreChannelConnectorS390X else FibreChannelConnector)"
    by (simp add: factory_def Let_def)
next
  assume "upper protocol \<notin> set protocols"
  then show "factory pm tr protocol arch =
          Inl (ValueError (''Invalid InitiatorConnector protocol specified '' @ upper protocol))"
    by (simp add: factory_def protocols_def Let_def)
qed

theorem factory_dispatch_witness:
  "factory ''x86_64'' None ''Fibre_Channel'' None = factory ''x86_64'' None ''FIBRE_CHANNEL'' None
   \<and> factory ''x86_64'' None ''Fibre_Channel'' (Some ''s390x'') = Inr FibreChannelConnectorS390X
   \<and> factory ''x86_64'' None ''Fibre_Channel'' None = Inr FibreChannelConnector
   \<and> factory ''x86_64'' None ''xyz'' None
       = Inl (ValueError ''Invalid InitiatorConnector protocol specified XYZ'')"
proof -
  have u: "upper ''Fibre_Channel'' = ''FIBRE_CHANNEL''" "upper ''FIBRE_CHANNEL'' = ''FIBRE_CHANNEL''"
      "upper ''xyz'' = ''XYZ''"
    by (simp_all add: upper_def upper_char_def)
  have n: "''XYZ'' \<notin> set protocols" by (simp add: protocols_def)
  note a = factory_dispatch [of "''Fibre_Channel''" "''FIBRE_CHANNEL''" "''x86_64''" None None]
  note b = factory_dispatch [of "''Fibre_Channel''" "''FIBRE_CHANNEL''" "''x86_64''" None "Some ''s390x''"]
  note c = factory_dispatch [of "''xyz''" "''xyz''" "''x86_64''" None None]
  from a u have 1: "factory ''x86_64'' None ''Fibre_Channel'' None = factory ''x86_64'' None ''FIBRE_CHANNEL'' None"
    by (simp only: simp_thms)
  from b u(1) have "factory ''x86_64'' None ''Fibre_Channel'' (Some ''s390x'') =
      Inr (if (case Some ''s390x'' of None \<Rightarrow> ''x86_64'' | Some a \<Rightarrow> a) \<in> {''s390'', ''s390x''}
           then FibreChannelConnectorS390X else FibreChannelConnector)"
    by (simp only: simp_thms)
  then have 2: "factory ''x86_64'' None ''Fibre_Channel'' (Some ''s390x'') = Inr FibreChannelConnectorS390X"
    by simp
  from a u(1) have "factory ''x86_64'' None ''Fibre_Channel'' None =
      Inr (if (case None of None \<Rightarrow> ''x86_64'' | Some a \<Rightarrow> a) \<in> {''s390'', ''s390x''}
           then FibreChannelConnectorS390X else FibreChannelConnector)"
    by (simp only: simp_thms)
  then have 3: "factory ''x86_64'' None ''Fibre_Channel'' None = Inr FibreChannelConnector"
    by simp
  from c u(3) n have 4: "factory ''x86_64'' None ''xyz'' None
       = Inl (ValueError ''Invalid InitiatorConnector protocol specified XYZ'')"
    by simp
  show ?thesis using 1 2 3 4 by simp
qed

text \<open>
  The message of the error names the protocol in upper case, not the value that was
  passed: for the protocol \<open>xyz\<close> the message does not contain \<open>xyz\<close>.
\<close>

theorem factory_message_counterexample:
  "factory ''x86_64'' None ''xyz'' None
     = Inl (ValueError ''Invalid InitiatorConnector protocol specified XYZ'')
   \<and> \<not> contains ''xyz'' ''Invalid InitiatorConnector protocol specified XYZ''"
proof
  show "factory ''x86_64'' None ''xyz'' None
       = Inl (ValueError ''Invalid InitiatorConnector protocol specified XYZ'')"
    by (simp add: factory_def upper_def upper_char_def)
  show "\<not> contains ''xyz'' ''Invalid InitiatorConnector protocol specified XYZ''"
    by simp
qed

subsection \<open>Fibre Channel candidate paths\<close>

lemma get_possible_devices_list:
  "get_possible_devices hbas (WwnList wwns) =
     concat (map (\<lambda>pci. map (\<lambda>wwn. (pci, ''0x'' @ lower wwn)) wwns) (List.map_filter get_pci_num hbas))"
  by (induction hbas) (auto simp: get_possible_devices_def List.map_filter_def split: option.splits)

lemma length_concat_const:
  "(\<And>x. x \<in> set xs \<Longrightarrow> length (f x) = n) \<Longrightarrow> length (concat (map f xs)) = length xs * n"
  by (induction xs) auto

lemma wait_for_device_discovery_found:
  "wait_for_device_discovery env attempts hbas devs tries h = (Inr (d, name), h') \<Longrightarrow>
     find (path_exists env h') devs = Some d"
proof (induction env attempts hbas devs tries h rule: wait_for_device_discovery.induct)
  case (1 env attempts hbas devs tries h)
  show ?case
  proof (cases "find (path_exists env h) devs")
    case (Some device)
    with 1(2) show ?thesis by (subst (asm) wait_for_device_discovery.simps) simp
  next
    case None
    show ?thesis
    proof (cases "tries \<ge> attempts")
      case True
      with None 1(2) show ?thesis by (subst (asm) wait_for_device_discovery.simps) simp
    next
      case False
      obtain r h1 where u: "utility env (RescanHosts hbas) h = (r, h1)" by (cases "utility env (RescanHosts hbas) h")
      show ?thesis
      proof (cases r)
        case (Inl e)
        with None False u 1(2) show ?thesis by (subst (asm) wait_for_device_discovery.simps) simp
      next
        case (Inr x)
        with None False u 1(2)
        have "wait_for_device_discovery env attempts hbas devs (tries + 1) (h1 @ [Sleep 2]) = (Inr (d, name), h')"
          by (subst (asm) wait_for_device_discovery.simps) simp
        with 1(1) [OF None False u [symmetric] ] Inr show ?thesis by simp
      qed
    qed
  qed
qed

text \<open>
  C5. With a list of target WWNs, the candidate paths are, HBA by HBA in the order of the
  HBAs whose PCI address resolves and for each of them WWN by WWN, the paths
  \<open>/dev/disk/by-path/pci-{pci}-fc-0x{wwn in lower case}-lun-{lun}\<close>, the lun being 0 when
  it is absent: one path for each pair, so their number is the product of the two
  numbers. When \<open>connect_volume\<close> without multipath returns, the path of the block device
  it returns is the first candidate, in that order, that exists on the host then.
\<close>

theorem fc_candidate_paths:
  "(target_wwn props = Some (WwnList wwns) \<longrightarrow>
      (\<exists>devs. get_possible_volume_paths props hbas = Inr devs
         \<and> devs = concat (map (\<lambda>pci. map (\<lambda>wwn.
               ''/dev/disk/by-path/pci-'' @ pci @ ''-fc-0x'' @ lower wwn @ ''-lun-''
                 @ str_of_int (case target_lun props of None \<Rightarrow> 0 | Some lun \<Rightarrow> lun)) wwns)
             (List.map_filter get_pci_num hbas))
         \<and> length devs = length (List.map_filter get_pci_num hbas) * length wwns))
   \<and> (fc_connect_volume env False attempts props h = (Inr info, h') \<longrightarrow>
        (\<exists>devs. get_possible_volume_paths props (fc_hbas_info env h) = Inr devs
           \<and> find (path_exists env h') devs = Some (info_path info)
           \<and> info_type info = ''block''))"
proof (intro conjI impI)
  assume a: "target_wwn props = Some (WwnList wwns)"
  let ?lun = "case target_lun props of None \<Rightarrow> 0 | Some lun \<Rightarrow> lun"
  let ?f = "\<lambda>pci. map (\<lambda>wwn. ''/dev/disk/by-path/pci-'' @ pci @ ''-fc-0x'' @ lower wwn @ ''-lun-'' @ str_of_int ?lun) wwns"
  let ?devs = "concat (map ?f (List.map_filter get_pci_num hbas))"
  have "get_possible_volume_paths props hbas = Inr ?devs"
    using a
    by (simp add: get_possible_volume_paths_def subscript_def get_host_devices_def
        get_possible_devices_list map_concat comp_def)
  moreover have "length ?devs = length (List.map_filter get_pci_num hbas) * length wwns"
    by (rule length_concat_const) simp
  ultimately show "\<exists>devs. get_possible_volume_paths props hbas = Inr devs
         \<and> devs = ?devs
         \<and> length devs = length (List.map_filter get_pci_num hbas) * length wwns"
    by blast
next
  assume a: "fc_connect_volume env False attempts props h = (Inr info, h')"
  let ?hbas = "fc_hbas_info env h"
  obtain devs where devs: "get_possible_volume_paths props ?hbas = Inr devs"
    using a by (cases "get_possible_volume_paths props ?hbas")
      (auto simp: fc_connect_volume_def bind_def observe_def lift_def)
  have ne: "devs \<noteq> []"
    using a devs by (auto simp: fc_connect_volume_def bind_def observe_def lift_def raise_def)
  from a devs ne obtain d name h1 where
    w: "wait_for_device_discovery env attempts ?hbas devs 0 h = (Inr (d, name), h1)"
    and rest: "bind (observe (\<lambda>h. scsi_wwn env h d)) (\<lambda>device_wwn.
        return \<lparr> info_type = ''block'', info_path = d, info_multipath_id = None \<rparr>) h1 = (Inr info, h')"
    by (auto simp: fc_connect_volume_def bind_def observe_def lift_def
        split: prod.splits sum.splits)
  from rest have "h' = h1" "info_path info = d" "info_type info = ''block''"
    by (auto simp: bind_def observe_def return_def split: sum.splits)
  with wait_for_device_discovery_found [OF w] devs
  show "\<exists>devs. get_possible_volume_paths props (fc_hbas_info env h) = Inr devs
           \<and> find (path_exists env h') devs = Some (info_path info)
           \<and> info_type info = ''block''"
    by simp
qed

lemma example_paths:
  "get_possible_volume_paths example_fc_props example_hbas =
     Inr [''/dev/disk/by-path/pci-0000:05:00.3-fc-0x5000abc1-lun-1'',
          ''/dev/disk/by-path/pci-0000:05:00.3-fc-0x5000abc2-lun-1'']"
  by (simp add: get_possible_volume_paths_def example_fc_props_def example_hbas_def no_props_def
      subscript_def get_host_devices_def get_possible_devices_def get_pci_num_def Let_def
      lower_def lower_char_def str_of_int_def digits_of.simps digit_char_def)

theorem fc_candidate_paths_witness:
  "get_possible_volume_paths example_fc_props example_hbas =
     Inr [''/dev/disk/by-path/pci-0000:05:00.3-fc-0x5000abc1-lun-1'',
          ''/dev/disk/by-path/pci-0000:05:00.3-fc-0x5000abc2-lun-1'']
   \<and> fc_connect_volume example_fc_host False 3 example_fc_props [] =
       (Inr \<lparr> info_type = ''block'',
              info_path = ''/dev/disk/by-path/pci-0000:05:00.3-fc-0x5000abc2-lun-1'',
              info_multipath_id = None \<rparr>,
        [RescanHosts example_hbas, Sleep 2])
   \<and> find (path_exists example_fc_host [RescanHosts example_hbas, Sleep 2])
        [''/dev/disk/by-path/pci-0000:05:00.3-fc-0x5000abc1-lun-1'',
         ''/dev/disk/by-path/pci-0000:05:00.3-fc-0x5000abc2-lun-1'']
       = Some ''/dev/disk/by-path/pci-0000:05:00.3-fc-0x5000abc2-lun-1''"
proof -
  let ?info = "\<lparr> info_type = ''block'',
              info_path = ''/dev/disk/by-path/pci-0000:05:00.3-fc-0x5000abc2-lun-1'',
              info_multipath_id = None \<rparr>"
  have hb: "fc_hbas_info example_fc_host [] = example_hbas"
    by (simp add: example_fc_host_def quiet_host_def)
  have c: "fc_connect_volume example_fc_host False 3 example_fc_props [] =
       (Inr ?info, [RescanHosts example_hbas, Sleep 2])"
    by (simp add: fc_connect_volume_def bind_def observe_def lift_def return_def hb example_paths
        wait_for_device_discovery.simps utility_def example_fc_host_def quiet_host_def)
  from fc_candidate_paths [of example_fc_props "[''5000ABC1'', ''5000abc2'']" example_hbas
      example_fc_host 3 "[]" ?info "[RescanHosts example_hbas, Sleep 2]"] c
  obtain devs where "get_possible_volume_paths example_fc_props (fc_hbas_info example_fc_host []) = Inr devs"
      "find (path_exists example_fc_host [RescanHosts example_hbas, Sleep 2]) devs = Some (info_path ?info)"
    by blast
  with hb example_paths c show ?thesis by simp
qed

subsection \<open>Waiting for the iSCSI device\<close>

lemma total_sleep_append: "total_sleep (xs @ ys) = total_sleep xs + total_sleep ys"
  by (induction xs rule: total_sleep.induct) auto

lemma commands_append: "commands (xs @ ys) = commands xs @ commands ys"
  by (induction xs rule: commands.induct) auto

lemma total_sleep_Exec: "total_sleep (map Exec cs) = 0"
  by (induction cs) auto

lemma commands_Exec: "commands (map Exec cs) = cs"
  by (induction cs) auto

lemma execute_ok:
  "fst (run env h cmd) \<in> set codes \<Longrightarrow> execute env codes cmd h = (Inr (snd (run env h cmd)), h @ [Exec cmd])"
  by (cases "run env h cmd") (simp add: execute_def)

lemma rescan_step_ok:
  assumes "\<not> use_multipath \<longrightarrow> (\<forall>h'. get_device_path env transport target_props h' = Inr host_devices)"
    and "\<not> use_multipath \<longrightarrow> target_iqn target_props = Some iqn \<and> target_portal target_props = Some portal"
    and "\<forall>h'. \<forall>c \<in> set (rescan_commands use_multipath iqn portal).
           fst (run env h' c) \<in> (if use_multipath then {0, 1, 21, 255} else {0})"
  shows "rescan_step env use_multipath transport target_props host_devices tries h =
           (Inr host_devices, h @ map Exec (rescan_commands use_multipath iqn portal))"
proof (cases use_multipath)
  case True
  then have 1: "\<And>h'. fst (run env h' [''iscsiadm'', ''-m'', ''node'', ''--rescan'']) \<in> set [0, 1, 21, 255]"
    and 2: "\<And>h'. fst (run env h' [''iscsiadm'', ''-m'', ''session'', ''--rescan'']) \<in> set [0, 1, 21, 255]"
    using assms(3) by (simp_all add: rescan_commands_def)
  show ?thesis
    using True
    by (simp add: rescan_step_def rescan_iscsi_def run_iscsiadm_bare_def bind_def return_def
        execute_ok [OF 1] execute_ok [OF 2] rescan_commands_def)
next
  case False
  then have 1: "\<And>h'. fst (run env h' (node_command iqn portal [''--rescan''])) \<in> set [0]"
    using assms(3) by (simp add: rescan_commands_def)
  show ?thesis
    using False assms(1,2)
    by (simp add: rescan_step_def run_iscsiadm_def bind_def return_def lift_def observe_def
        subscript_def execute_ok [OF 1] rescan_commands_def)
qed

lemma connect_volume_wait_from:
  assumes "\<not> use_multipath \<longrightarrow> (\<forall>h'. get_device_path env transport target_props h' = Inr host_devices)"
    and "\<not> use_multipath \<longrightarrow> target_iqn target_props = Some iqn \<and> target_portal target_props = Some portal"
    and "\<forall>h'. \<forall>c \<in> set (rescan_commands use_multipath iqn portal).
           fst (run env h' c) \<in> (if use_multipath then {0, 1, 21, 255} else {0})"
    and "\<forall>h'. \<forall>p \<in> set host_devices. \<not> path_exists env h' p"
  shows "connect_volume_wait env use_multipath transport attempts target_props host_devices tries h =
           (Inl (VolumeDeviceNotFound host_devices),
            h @ concat (map (\<lambda>i. map Exec (rescan_commands use_multipath iqn portal) @ [Sleep (i ^ 2)])
                          [tries + 1 .. attempts]))"
proof (induction "nat (attempts - tries)" arbitrary: tries h)
  case 0
  then have ge: "tries \<ge> attempts" by simp
  have all: "list_all (\<lambda>x. \<not> path_exists env h x) host_devices"
    using assms(4) by (simp add: list_all_iff)
  show ?case
    using ge all by (subst connect_volume_wait.simps) simp
next
  case (Suc n)
  then have lt: "\<not> tries \<ge> attempts" and n: "n = nat (attempts - (tries + 1))" by linarith+
  have all: "\<And>h'. list_all (\<lambda>x. \<not> path_exists env h' x) host_devices"
    using assms(4) by (simp add: list_all_iff)
  let ?ev = "\<lambda>i. map Exec (rescan_commands use_multipath iqn portal) @ [Sleep (i ^ 2)]"
  let ?h1 = "h @ map Exec (rescan_commands use_multipath iqn portal)"
  have step: "rescan_step env use_multipath transport target_props host_devices tries h =
           (Inr host_devices, ?h1)"
    using assms(1,2,3) by (rule rescan_step_ok)
  have "connect_volume_wait env use_multipath transport attempts target_props host_devices tries h =
      connect_volume_wait env use_multipath transport attempts target_props host_devices (tries + 1)
        (?h1 @ [Sleep ((tries + 1) ^ 2)])"
    using lt all step by (subst connect_volume_wait.simps) simp
  also have "\<dots> = (Inl (VolumeDeviceNotFound host_devices),
      (?h1 @ [Sleep ((tries + 1) ^ 2)]) @ concat (map ?ev [tries + 1 + 1 .. attempts]))"
    using Suc(1) [OF n] .
  also have "(?h1 @ [Sleep ((tries + 1) ^ 2)]) @ concat (map ?ev [tries + 1 + 1 .. attempts])
      = h @ concat (map ?ev [tries + 1 .. attempts])"
    using lt by (simp add: upto_rec1 [of "tries + 1" attempts])
  finally show ?case .
qed

lemma sleep_sum:
  "total_sleep (concat (map (\<lambda>i. map Exec cs @ [Sleep (i ^ 2)]) [a .. b])) = (\<Sum>i = a .. b. i ^ 2)"
proof (induction "nat (b + 1 - a)" arbitrary: a)
  case 0
  then have "b < a" by simp
  then show ?case by simp
next
  case (Suc n)
  then have le: "a \<le> b" and n: "n = nat (b + 1 - (a + 1))" by linarith+
  have set: "{a .. b} = insert a {a + 1 .. b}" using le by auto
  have "(\<Sum>i = a .. b. i ^ 2) = a ^ 2 + (\<Sum>i = a + 1 .. b. i ^ 2)"
    by (subst set) simp
  moreover have "[a .. b] = a # [a + 1 .. b]" using le by (rule upto_rec1)
  ultimately show ?case
    using Suc(1) [OF n] by (simp add: total_sleep_append total_sleep_Exec)
qed

lemma commands_rounds:
  "commands (concat (map (\<lambda>i. map Exec cs @ [Sleep (i ^ 2)]) [a .. b]))
     = concat (replicate (nat (b + 1 - a)) cs)"
proof (induction "nat (b + 1 - a)" arbitrary: a)
  case 0
  then have "b < a" by simp
  then show ?case by simp
next
  case (Suc n)
  then have le: "a \<le> b" and n: "n = nat (b + 1 - (a + 1))" by linarith+
  have "[a .. b] = a # [a + 1 .. b]" using le by (rule upto_rec1)
  moreover have "nat (b + 1 - a) = Suc (nat (b + 1 - (a + 1)))" using le by simp
  ultimately show ?case
    using Suc(1) [OF n] by (simp add: commands_append commands_Exec)
qed

text \<open>
  C1, as the code has it. Take a host on which none of the candidate paths ever exists and
  every rescan command exits with a code the connector accepts (and, without multipath,
  the candidate paths computed again from \<open>target_props\<close> stay the same). Then the waiting
  loop raises \<open>VolumeDeviceNotFound\<close> with the candidate paths after exactly
  \<open>device_scan_attempts\<close> rescans (none when that number is not positive), each of them
  followed by a sleep of the square of its number, the last one too: the sleeps are
  1, 4, 9, ... and their total is the sum of \<open>i\<^sup>2\<close> for \<open>i\<close> from 1 to
  \<open>device_scan_attempts\<close>.
\<close>

theorem connect_volume_wait_never_found:
  assumes "\<not> use_multipath \<longrightarrow> (\<forall>h'. get_device_path env transport target_props h' = Inr host_devices)"
    and "\<not> use_multipath \<longrightarrow> target_iqn target_props = Some iqn \<and> target_portal target_props = Some portal"
    and "\<forall>h'. \<forall>c \<in> set (rescan_commands use_multipath iqn portal).
           fst (run env h' c) \<in> (if use_multipath then {0, 1, 21, 255} else {0})"
    and "\<forall>h'. \<forall>p \<in> set host_devices. \<not> path_exists env h' p"
  shows "\<exists>trace.
     connect_volume_wait env use_multipath transport device_scan_attempts target_props host_devices 0 h
       = (Inl (VolumeDeviceNotFound host_devices), h @ trace)
     \<and> trace = concat (map (\<lambda>i. map Exec (rescan_commands use_multipath iqn portal) @ [Sleep (i ^ 2)])
                        [1 .. device_scan_attempts])
     \<and> commands trace
         = concat (replicate (nat device_scan_attempts) (rescan_commands use_multipath iqn portal))
     \<and> total_sleep trace = (\<Sum>i = 1 .. device_scan_attempts. i ^ 2)"
  using connect_volume_wait_from [OF assms, of device_scan_attempts 0 h]
  by (simp add: sleep_sum commands_rounds)

lemma example_device_path:
  "get_device_path env ''default'' example_iscsi_props h = Inr [example_iscsi_path]"
  by (simp add: get_device_path_def get_all_targets_def example_iscsi_props_def no_props_def
      subscript_def iscsi_path_def str_of_int_def digits_of.simps digit_char_def
      example_iscsi_path_def)

lemma upto_1_3: "[1 .. 3] = [1, 2, 3 :: int]"
  by (simp add: upto.simps)

lemma example_wait:
  "connect_volume_wait quiet_host False ''default'' 3 example_iscsi_props [example_iscsi_path] 0 []
     = (Inl (VolumeDeviceNotFound [example_iscsi_path]),
        [Exec example_rescan, Sleep 1, Exec example_rescan, Sleep 4, Exec example_rescan, Sleep 9])"
proof -
  have "connect_volume_wait quiet_host False ''default'' 3 example_iscsi_props [example_iscsi_path] 0 []
     = (Inl (VolumeDeviceNotFound [example_iscsi_path]),
        [] @ concat (map (\<lambda>i. map Exec (rescan_commands False ''iqn.2010-x:vol1'' ''10.0.0.5:3260'')
                           @ [Sleep (i ^ 2)]) [0 + 1 .. 3]))"
    by (rule connect_volume_wait_from)
       (simp_all add: example_device_path, simp_all add: example_iscsi_props_def no_props_def quiet_host_def)
  then show ?thesis
    by (simp add: rescan_commands_def node_command_def example_rescan_def upto_1_3)
qed

theorem connect_volume_wait_never_found_witness:
  "connect_volume_wait quiet_host False ''default'' 3 example_iscsi_props [example_iscsi_path] 0 []
     = (Inl (VolumeDeviceNotFound [example_iscsi_path]),
        [Exec example_rescan, Sleep 1, Exec example_rescan, Sleep 4, Exec example_rescan, Sleep 9])
   \<and> commands [Exec example_rescan, Sleep 1, Exec example_rescan, Sleep 4, Exec example_rescan, Sleep 9]
       = [example_rescan, example_rescan, example_rescan]
   \<and> total_sleep [Exec example_rescan, Sleep 1, Exec example_rescan, Sleep 4, Exec example_rescan, Sleep 9]
       = 1 + 4 + 9"
proof -
  have 1: "\<not> False \<longrightarrow> (\<forall>h'. get_device_path quiet_host ''default'' example_iscsi_props h' = Inr [example_iscsi_path])"
    by (simp add: example_device_path)
  have 2: "\<not> False \<longrightarrow> target_iqn example_iscsi_props = Some ''iqn.2010-x:vol1''
      \<and> target_portal example_iscsi_props = Some ''10.0.0.5:3260''"
    by (simp add: example_iscsi_props_def no_props_def)
  have 3: "\<forall>h'. \<forall>c \<in> set (rescan_commands False ''iqn.2010-x:vol1'' ''10.0.0.5:3260'').
           fst (run quiet_host h' c) \<in> (if False then {0, 1, 21, 255} else {0})"
    by (simp add: quiet_host_def)
  have 4: "\<forall>h'. \<forall>p \<in> set [example_iscsi_path]. \<not> path_exists quiet_host h' p"
    by (simp add: quiet_host_def)
  from connect_volume_wait_never_found [OF 1 2 3 4, of 3 "[]"]
  obtain trace where t:
    "connect_volume_wait quiet_host False ''default'' 3 example_iscsi_props [example_iscsi_path] 0 []
       = (Inl (VolumeDeviceNotFound [example_iscsi_path]), [] @ trace)"
    "trace = concat (map (\<lambda>i. map Exec (rescan_commands False ''iqn.2010-x:vol1'' ''10.0.0.5:3260'')
                        @ [Sleep (i ^ 2)]) [1 .. 3])"
    "commands trace = concat (replicate (nat 3) (rescan_commands False ''iqn.2010-x:vol1'' ''10.0.0.5:3260''))"
    "total_sleep trace = (\<Sum>i = 1 .. 3. i ^ 2)"
    by blast
  have tr: "trace = [Exec example_rescan, Sleep 1, Exec example_rescan, Sleep 4, Exec example_rescan, Sleep 9]"
    using t(2) by (simp add: rescan_commands_def node_command_def example_rescan_def upto_1_3)
  show ?thesis using t(1) tr by simp
qed

text \<open>
  With three attempts the loop sleeps 1, 4 and 9 seconds, 14 in all, and not the 5 seconds
  of a sum that stops at \<open>device_scan_attempts - 1\<close>.
\<close>

theorem connect_volume_wait_sleep_counterexample:
  "connect_volume_wait quiet_host False ''default'' 3 example_iscsi_props [example_iscsi_path] 0 []
     = (Inl (VolumeDeviceNotFound [example_iscsi_path]),
        [Exec example_rescan, Sleep 1, Exec example_rescan, Sleep 4, Exec example_rescan, Sleep 9])
   \<and> total_sleep [Exec example_rescan, Sleep 1, Exec example_rescan, Sleep 4, Exec example_rescan, Sleep 9]
       = 14
   \<and> (14 :: int) \<noteq> 1 ^ 2 + 2 ^ 2"
  using example_wait by simp

subsection \<open>Establishing the session of a target\<close>

lemma login_unless_session_eq:
  assumes "target_iqn props = Some iqn" "target_portal props = Some portal"
  shows "login_unless_session env props hs =
     (let h1 = hs @ [Exec session_command] in
      if fst (run env hs session_command) \<in> {0, 1, 21}
      then
        (case session_entries (splitlines (snd (run env hs session_command))) of
           Inl e \<Rightarrow> (Inl e, h1)
         | Inr ss \<Rightarrow>
             if \<exists>s \<in> set ss. session_matches props (hd (split_on CHR '','' portal)) s
             then (Inr True, h1)
             else
               (let h2 = h1 @ [Exec (login_command iqn portal)] in
                if fst (run env h1 (login_command iqn portal)) \<in> {0, 255, 15}
                then ((if fst (run env h2 (startup_command iqn portal ''automatic'')) = 0
                       then Inr True
                       else Inl (ProcessExecutionError
                                   (fst (run env h2 (startup_command iqn portal ''automatic''))))),
                      h2 @ [Exec (startup_command iqn portal ''automatic'')])
                else (Inr False, h2)))
      else (Inl (ProcessExecutionError (fst (run env hs session_command))), h1))"
proof -
  have f: "\<And>P xs. (xs = [] \<or> filter P xs = []) = (\<not> (\<exists>s \<in> set xs. P s))"
    by (auto simp: filter_empty_conv)
  show ?thesis
    unfolding login_unless_session_def run_iscsiadm_bare_def iscsiadm_update_def
      run_iscsiadm_eq [OF assms] session_command_def [symmetric]
    by (auto simp: bind_def lift_def execute_eq return_def catch_exit_code_def subscript_def
        assms f Let_def login_command_def startup_command_def session_command_def
        split: sum.splits)
qed

lemma prepare_node_trace:
  assumes "target_iqn props = Some iqn" "target_portal props = Some portal"
  shows "\<exists>r pre. prepare_node env transport props h = (r, h @ Exec (node_command iqn portal []) # pre)
           \<and> list_all (\<lambda>e. \<exists>args. e = Exec (node_command iqn portal args) \<and> length args \<in> {4, 6}) pre"
proof -
  let ?P = "\<lambda>e. \<exists>args. e = Exec (node_command iqn portal args) \<and> length args \<in> {4, 6}"
  let ?rc = "fst (run env h (node_command iqn portal []))"
  let ?auth = "\<lambda>u :: string. (if truthy (auth_method props)
     then
       bind (lift (subscript ''auth_method'' (auth_method props))) (\<lambda>method.
       bind (iscsiadm_update env props ''node.session.auth.authmethod'' method [0]) (\<lambda>_.
       bind (lift (subscript ''auth_username'' (auth_username props))) (\<lambda>username.
       bind (iscsiadm_update env props ''node.session.auth.username'' username [0]) (\<lambda>_.
       bind (lift (subscript ''auth_password'' (auth_password props))) (\<lambda>password.
       bind (iscsiadm_update env props ''node.session.auth.password'' password [0]) (\<lambda>_.
       return ()))))))
     else return ())"
  let ?cont = "bind (if ?rc = 0 then return (snd (run env h (node_command iqn portal [])))
                    else if ?rc \<in> set [21, 255]
                    then execute env [0] (node_command iqn portal [''--interface'', transport, ''--op'', ''new''])
                    else raise (ProcessExecutionError ?rc)) ?auth"
  have upd: "\<And>k v. emits ?P (iscsiadm_update env props k v [0])"
    unfolding iscsiadm_update_def run_iscsiadm_eq [OF assms]
    by (rule emits_execute) (auto simp: update_command_def)
  have "emits ?P ?cont"
    by (intro emits_bind emits_if emits_return emits_raise emits_lift emits_execute upd) auto
  then obtain r pre where c: "?cont (h @ [Exec (node_command iqn portal [])]) = (r, (h @ [Exec (node_command iqn portal [])]) @ pre)"
      "list_all ?P pre"
    using emitsD by blast
  have "prepare_node env transport props h = ?cont (h @ [Exec (node_command iqn portal [])])"
    unfolding prepare_node_def run_iscsiadm_eq [OF assms]
    by (simp add: bind_def catch_exit_code_def execute_eq return_def raise_def)
  with c show ?thesis by auto
qed

lemma prefix_snoc1: "prefix (y @ [a]) [b] \<Longrightarrow> a \<noteq> b \<Longrightarrow> False"
  by (cases y) (auto simp: prefix_Cons)

lemma prefix_snoc2: "prefix (y @ [a]) [b, a] \<Longrightarrow> a \<noteq> b \<Longrightarrow> y = [b]"
  by (cases y; cases "tl y") (auto simp: prefix_Cons)

lemma prefix_snoc3: "prefix (y @ [a]) [b, a, c] \<Longrightarrow> a \<noteq> b \<Longrightarrow> a \<noteq> c \<Longrightarrow> y = [b]"
  by (cases y; cases "tl y"; cases "tl (tl y)") (auto simp: prefix_Cons)

lemma prefix_snoc_skip:
  assumes "prefix (x @ [a]) (p @ t)" "a \<notin> set p"
  shows "\<exists>y. x = p @ y \<and> prefix (y @ [a]) t"
proof -
  from assms(1) consider "prefix (x @ [a]) p" | us where "x @ [a] = p @ us" "prefix us t"
    by (auto simp: prefix_append)
  then show ?thesis
  proof cases
    case 1
    then have "a \<in> set p" by (auto simp: prefix_def)
    with assms(2) show ?thesis by simp
  next
    case 2
    show ?thesis
    proof (cases us rule: rev_cases)
      case Nil
      with 2 have "a \<in> set p" by (metis append_Nil2 in_set_conv_decomp)
      with assms(2) show ?thesis by simp
    next
      case (snoc y b)
      with 2 have "x = p @ y" "a = b" by auto
      with 2 snoc show ?thesis by auto
    qed
  qed
qed

lemma node_command_inj: "node_command iqn portal a = node_command iqn portal b \<Longrightarrow> a = b"
  by (simp add: node_command_def)

lemma login_unless_session_login:
  assumes "target_iqn props = Some iqn" "target_portal props = Some portal"
    and "login_unless_session env props hs = (r, h')"
    and "prefix (hl @ [Exec (login_command iqn portal)]) h'" "prefix hs hl"
  shows "hl = hs @ [Exec session_command]
     \<and> (\<exists>ss. session_entries (splitlines (snd (run env hs session_command))) = Inr ss
          \<and> \<not> (\<exists>s \<in> set ss. session_matches props (hd (split_on CHR '','' portal)) s))
     \<and> (fst (run env hl (login_command iqn portal)) \<in> {0, 255, 15} \<longrightarrow>
          h' = hl @ [Exec (login_command iqn portal), Exec (startup_command iqn portal ''automatic'')]
          \<and> r = (if fst (run env (hl @ [Exec (login_command iqn portal)])
                            (startup_command iqn portal ''automatic'')) = 0
                  then Inr True
                  else Inl (ProcessExecutionError
                         (fst (run env (hl @ [Exec (login_command iqn portal)])
                                 (startup_command iqn portal ''automatic''))))))
     \<and> (fst (run env hl (login_command iqn portal)) \<notin> {0, 255, 15} \<longrightarrow>
          h' = hl @ [Exec (login_command iqn portal)] \<and> r = Inr False)"
proof -
  let ?s = "Exec session_command"
  let ?l = "Exec (login_command iqn portal)"
  let ?u = "Exec (startup_command iqn portal ''automatic'')"
  have ne: "?l \<noteq> ?s" "?l \<noteq> ?u"
    by (simp_all add: login_command_def session_command_def startup_command_def node_command_def
        update_command_def)
  from assms(5) obtain y where y: "hl = hs @ y" by (auto simp: prefix_def)
  note eq = login_unless_session_eq [OF assms(1,2), of env hs]
  let ?parse = "session_entries (splitlines (snd (run env hs session_command)))"
  let ?rcl = "fst (run env (hs @ [?s]) (login_command iqn portal))"
  have res: "(r, h') = login_unless_session env props hs" using assms(3) by simp
  consider (short) "h' = hs @ [?s]"
    | (failed) ss where "h' = hs @ [?s, ?l]" "r = Inr False"
        "?parse = Inr ss"
        "\<not> (\<exists>s \<in> set ss. session_matches props (hd (split_on CHR '','' portal)) s)"
        "?rcl \<notin> {0, 255, 15}"
    | (logged) ss where "h' = hs @ [?s, ?l, ?u]"
        "r = (if fst (run env (hs @ [?s, ?l]) (startup_command iqn portal ''automatic'')) = 0
              then Inr True
              else Inl (ProcessExecutionError
                     (fst (run env (hs @ [?s, ?l]) (startup_command iqn portal ''automatic'')))))"
        "?parse = Inr ss"
        "\<not> (\<exists>s \<in> set ss. session_matches props (hd (split_on CHR '','' portal)) s)"
        "?rcl \<in> {0, 255, 15}"
  proof (cases "fst (run env hs session_command) \<in> {0, 1, 21}")
    case False
    then have "h' = hs @ [?s]" using res unfolding eq Let_def by simp
    then show ?thesis by (rule short)
  next
    case ok: True
    show ?thesis
    proof (cases ?parse)
      case (Inl e)
      then have "h' = hs @ [?s]" using res ok unfolding eq Let_def by simp
      then show ?thesis by (rule short)
    next
      case (Inr ss)
      show ?thesis
      proof (cases "\<exists>s \<in> set ss. session_matches props (hd (split_on CHR '','' portal)) s")
        case True
        then have "h' = hs @ [?s]" using res ok Inr unfolding eq Let_def by simp
        then show ?thesis by (rule short)
      next
        case nomatch: False
        show ?thesis
        proof (cases "?rcl \<in> {0, 255, 15}")
          case True
          have "(r, h') = ((if fst (run env (hs @ [?s, ?l]) (startup_command iqn portal ''automatic'')) = 0
              then Inr True
              else Inl (ProcessExecutionError
                     (fst (run env (hs @ [?s, ?l]) (startup_command iqn portal ''automatic''))))),
              hs @ [?s, ?l, ?u])"
            using res ok Inr nomatch True unfolding eq Let_def by simp
          then show ?thesis using Inr nomatch True by (intro logged [of ss]) simp_all
        next
          case False
          have "(r, h') = (Inr False, hs @ [?s, ?l])"
            using res ok Inr nomatch False unfolding eq Let_def by simp
          then show ?thesis using Inr nomatch False by (intro failed [of ss]) simp_all
        qed
      qed
    qed
  qed
  then show ?thesis
  proof cases
    case short
    with assms(4) y have "prefix (y @ [?l]) [?s]" by simp
    then have False using ne(1) by (rule prefix_snoc1)
    then show ?thesis ..
  next
    case failed
    from failed(1) assms(4) y have "prefix (y @ [?l]) [?s, ?l]" by simp
    then have "y = [?s]" using ne(1) by (rule prefix_snoc2)
    with y have hl: "hl = hs @ [?s]" by simp
    have h': "h' = hl @ [?l]" using failed(1) hl by simp
    show ?thesis
      unfolding hl using failed(2-5) h' [unfolded hl] by (intro conjI impI exI [of _ ss]) simp_all
  next
    case logged
    from logged(1) assms(4) y have "prefix (y @ [?l]) [?s, ?l, ?u]" by simp
    then have "y = [?s]" using ne by (rule prefix_snoc3)
    with y have hl: "hl = hs @ [?s]" by simp
    have h': "h' = hl @ [?l, ?u]" using logged(1) hl by simp
    show ?thesis
      unfolding hl using logged(2-5) h' [unfolded hl] by (intro conjI impI exI [of _ ss]) simp_all
  qed
qed

lemma login_unless_session_extends:
  "\<exists>evs. snd (login_unless_session env props hs) = hs @ evs"
proof -
  have "emits (\<lambda>e. True) (login_unless_session env props)"
    unfolding login_unless_session_def run_iscsiadm_bare_def iscsiadm_update_def
    by (intro emits_bind emits_lift emits_execute emits_if emits_catch emits_return
        emits_run_iscsiadm) simp_all
  from emitsD [OF this, of hs] show ?thesis by auto
qed

text \<open>
  C4. Whenever establishing the session of a target runs the login command, the command
  just before it is the listing of the active sessions, and none of the entries parsed
  from its \<open>tcp:\<close> lines has both the portal of the target (each read up to its first
  comma) and its iqn. When the login then exits with code 15 (or with one of the accepted
  codes 0 and 255), the node startup is set to \<open>automatic\<close> and the result is \<open>True\<close>
  (unless that update itself fails, which raises); when it exits with any other code, the
  result is \<open>False\<close> and nothing is raised.
\<close>

theorem connect_to_iscsi_portal_login:
  assumes "target_iqn props = Some iqn" "target_portal props = Some portal"
    and "connect_to_iscsi_portal env transport props h = (r, h')"
  shows "\<forall>hl. prefix (hl @ [Exec (login_command iqn portal)]) h' \<and> prefix h hl \<longrightarrow>
     (\<exists>hs ss. hl = hs @ [Exec session_command] \<and> prefix h hs
        \<and> session_entries (splitlines (snd (run env hs session_command))) = Inr ss
        \<and> \<not> (\<exists>s \<in> set ss. hd (split_on CHR '','' (fst s)) = hd (split_on CHR '','' portal)
                              \<and> snd s = iqn))
     \<and> (fst (run env hl (login_command iqn portal)) \<in> {0, 255, 15} \<longrightarrow>
          h' = hl @ [Exec (login_command iqn portal), Exec (startup_command iqn portal ''automatic'')]
          \<and> r = (if fst (run env (hl @ [Exec (login_command iqn portal)])
                            (startup_command iqn portal ''automatic'')) = 0
                  then Inr True
                  else Inl (ProcessExecutionError
                         (fst (run env (hl @ [Exec (login_command iqn portal)])
                                 (startup_command iqn portal ''automatic''))))))
     \<and> (fst (run env hl (login_command iqn portal)) \<notin> {0, 255, 15} \<longrightarrow>
          h' = hl @ [Exec (login_command iqn portal)] \<and> r = Inr False)"
proof (intro allI impI)
  fix hl
  assume a: "prefix (hl @ [Exec (login_command iqn portal)]) h' \<and> prefix h hl"
  let ?l = "Exec (login_command iqn portal)"
  let ?P = "\<lambda>e. \<exists>args. e = Exec (node_command iqn portal args) \<and> length args \<in> {4, 6}"
  from prepare_node_trace [OF assms(1,2), of env transport h]
  obtain r1 pre where p: "prepare_node env transport props h = (r1, h @ Exec (node_command iqn portal []) # pre)"
    and pre: "list_all ?P pre"
    by blast
  let ?p = "Exec (node_command iqn portal []) # pre"
  have "?l \<notin> set pre"
  proof
    assume "?l \<in> set pre"
    with pre obtain args where "?l = Exec (node_command iqn portal args)" "length args \<in> {4, 6}"
      by (auto simp: list_all_iff)
    then show False by (auto simp: login_command_def dest!: node_command_inj)
  qed
  moreover have "?l \<noteq> Exec (node_command iqn portal [])"
    by (auto simp: login_command_def dest!: node_command_inj)
  ultimately have notin: "?l \<notin> set ?p" by simp
  from a obtain x where x: "hl = h @ x" by (auto simp: prefix_def)
  show "(\<exists>hs ss. hl = hs @ [Exec session_command] \<and> prefix h hs
        \<and> session_entries (splitlines (snd (run env hs session_command))) = Inr ss
        \<and> \<not> (\<exists>s \<in> set ss. hd (split_on CHR '','' (fst s)) = hd (split_on CHR '','' portal)
                              \<and> snd s = iqn))
     \<and> (fst (run env hl (login_command iqn portal)) \<in> {0, 255, 15} \<longrightarrow>
          h' = hl @ [Exec (login_command iqn portal), Exec (startup_command iqn portal ''automatic'')]
          \<and> r = (if fst (run env (hl @ [Exec (login_command iqn portal)])
                            (startup_command iqn portal ''automatic'')) = 0
                  then Inr True
                  else Inl (ProcessExecutionError
                         (fst (run env (hl @ [Exec (login_command iqn portal)])
                                 (startup_command iqn portal ''automatic''))))))
     \<and> (fst (run env hl (login_command iqn portal)) \<notin> {0, 255, 15} \<longrightarrow>
          h' = hl @ [Exec (login_command iqn portal)] \<and> r = Inr False)"
  proof (cases r1)
    case (Inl e)
    with p assms(3) have "h' = h @ ?p" by (simp add: connect_to_iscsi_portal_def bind_def)
    with a x have "prefix (x @ [?l]) (?p @ [])" by simp
    from prefix_snoc_skip [OF this notin] have False by simp
    then show ?thesis ..
  next
    case (Inr u)
    let ?hs = "h @ ?p"
    from Inr p assms(3) have lus: "login_unless_session env props ?hs = (r, h')"
      by (simp add: connect_to_iscsi_portal_def bind_def)
    from login_unless_session_extends [of env props ?hs] lus
    obtain evs where evs: "h' = ?hs @ evs" by auto
    with a x have "prefix (x @ [?l]) (?p @ evs)" by simp
    from prefix_snoc_skip [OF this notin] obtain y where y: "x = ?p @ y" by blast
    with x have pre_hl: "prefix ?hs hl" by simp
    from a have pl: "prefix (hl @ [?l]) h'" by simp
    note L = login_unless_session_login [OF assms(1,2) lus pl pre_hl]
    from L obtain ss where ss: "hl = ?hs @ [Exec session_command]"
        "session_entries (splitlines (snd (run env ?hs session_command))) = Inr ss"
        "\<not> (\<exists>s \<in> set ss. session_matches props (hd (split_on CHR '','' portal)) s)"
      by blast
    have nm: "\<not> (\<exists>s \<in> set ss. hd (split_on CHR '','' (fst s)) = hd (split_on CHR '','' portal)
                              \<and> snd s = iqn)"
      using ss(3) assms(1) by (auto simp: session_matches_def)
    have first: "\<exists>hs ss. hl = hs @ [Exec session_command] \<and> prefix h hs
        \<and> session_entries (splitlines (snd (run env hs session_command))) = Inr ss
        \<and> \<not> (\<exists>s \<in> set ss. hd (split_on CHR '','' (fst s)) = hd (split_on CHR '','' portal)
                              \<and> snd s = iqn)"
      using ss(1,2) nm by (intro exI [of _ ?hs] exI [of _ ss]) simp
    from L have second: "fst (run env hl (login_command iqn portal)) \<in> {0, 255, 15} \<longrightarrow>
          h' = hl @ [Exec (login_command iqn portal), Exec (startup_command iqn portal ''automatic'')]
          \<and> r = (if fst (run env (hl @ [Exec (login_command iqn portal)])
                            (startup_command iqn portal ''automatic'')) = 0
                  then Inr True
                  else Inl (ProcessExecutionError
                         (fst (run env (hl @ [Exec (login_command iqn portal)])
                                 (startup_command iqn portal ''automatic'')))))"
      by (elim conjE)
    from L have third: "fst (run env hl (login_command iqn portal)) \<notin> {0, 255, 15} \<longrightarrow>
          h' = hl @ [Exec (login_command iqn portal)] \<and> r = Inr False"
      by (elim conjE)
    from first second third show ?thesis by (intro conjI)
  qed
qed

lemma example_sessions_parsed:
  "session_entries (splitlines example_sessions) = Inr [(''10.0.0.9:3260,1'', ''iqn.2010-x:other'')]"
  by code_simp

lemma example_no_match:
  "\<not> session_matches example_iscsi_props stripped (''10.0.0.9:3260,1'', ''iqn.2010-x:other'')"
  by (simp add: session_matches_def example_iscsi_props_def no_props_def)

lemma example_connect:
  "connect_to_iscsi_portal (example_login_host rc) ''default'' example_iscsi_props [] =
     (if rc \<in> {0, 255, 15} then Inr True else Inr False,
      [Exec (node_command ''iqn.2010-x:vol1'' ''10.0.0.5:3260'' []), Exec session_command,
       Exec (login_command ''iqn.2010-x:vol1'' ''10.0.0.5:3260'')]
      @ (if rc \<in> {0, 255, 15}
         then [Exec (startup_command ''iqn.2010-x:vol1'' ''10.0.0.5:3260'' ''automatic'')] else []))"
proof -
  have i: "target_iqn example_iscsi_props = Some ''iqn.2010-x:vol1''"
    and p: "target_portal example_iscsi_props = Some ''10.0.0.5:3260''"
    and a: "\<not> truthy (auth_method example_iscsi_props)"
    by (simp_all add: example_iscsi_props_def no_props_def truthy_def)
  have ne: "node_command ''iqn.2010-x:vol1'' ''10.0.0.5:3260'' [] \<noteq> session_command"
      "node_command ''iqn.2010-x:vol1'' ''10.0.0.5:3260'' [] \<noteq> login_command ''iqn.2010-x:vol1'' ''10.0.0.5:3260''"
      "startup_command ''iqn.2010-x:vol1'' ''10.0.0.5:3260'' ''automatic'' \<noteq> session_command"
      "startup_command ''iqn.2010-x:vol1'' ''10.0.0.5:3260'' ''automatic'' \<noteq> login_command ''iqn.2010-x:vol1'' ''10.0.0.5:3260''"
      "login_command ''iqn.2010-x:vol1'' ''10.0.0.5:3260'' \<noteq> session_command"
    by (simp_all add: node_command_def session_command_def login_command_def startup_command_def
        update_command_def)
  have prep: "prepare_node (example_login_host rc) ''default'' example_iscsi_props []
      = (Inr (), [Exec (node_command ''iqn.2010-x:vol1'' ''10.0.0.5:3260'' [])])"
    unfolding prepare_node_def run_iscsiadm_eq [OF i p]
    by (simp add: a bind_def catch_exit_code_def execute_eq return_def example_login_host_def
        quiet_host_def ne)
  note lus = login_unless_session_eq [OF i p, of "example_login_host rc"
      "[Exec (node_command ''iqn.2010-x:vol1'' ''10.0.0.5:3260'' [])]"]
  have run_s: "\<And>h. run (example_login_host rc) h session_command = (0, example_sessions)"
    and run_l: "\<And>h. run (example_login_host rc) h (login_command ''iqn.2010-x:vol1'' ''10.0.0.5:3260'') = (rc, [])"
    and run_u: "\<And>h. run (example_login_host rc) h (startup_command ''iqn.2010-x:vol1'' ''10.0.0.5:3260'' ''automatic'') = (0, [])"
    by (simp_all add: example_login_host_def quiet_host_def ne)
  show ?thesis
    unfolding connect_to_iscsi_portal_def
    by (simp add: bind_def prep lus run_s run_l run_u example_sessions_parsed example_no_match Let_def)
qed

theorem connect_to_iscsi_portal_login_witness:
  "connect_to_iscsi_portal (example_login_host 15) ''default'' example_iscsi_props [] =
     (Inr True,
      [Exec (node_command ''iqn.2010-x:vol1'' ''10.0.0.5:3260'' []), Exec session_command,
       Exec (login_command ''iqn.2010-x:vol1'' ''10.0.0.5:3260''),
       Exec (startup_command ''iqn.2010-x:vol1'' ''10.0.0.5:3260'' ''automatic'')])
   \<and> connect_to_iscsi_portal (example_login_host 8) ''default'' example_iscsi_props [] =
     (Inr False,
      [Exec (node_command ''iqn.2010-x:vol1'' ''10.0.0.5:3260'' []), Exec session_command,
       Exec (login_command ''iqn.2010-x:vol1'' ''10.0.0.5:3260'')])
   \<and> session_entries (splitlines (snd (run (example_login_host 15)
         [Exec (node_command ''iqn.2010-x:vol1'' ''10.0.0.5:3260'' [])] session_command)))
       = Inr [(''10.0.0.9:3260,1'', ''iqn.2010-x:other'')]"
proof -
  let ?p = "Exec (node_command ''iqn.2010-x:vol1'' ''10.0.0.5:3260'' [])"
  let ?l = "Exec (login_command ''iqn.2010-x:vol1'' ''10.0.0.5:3260'')"
  let ?u = "Exec (startup_command ''iqn.2010-x:vol1'' ''10.0.0.5:3260'' ''automatic'')"
  have i: "target_iqn example_iscsi_props = Some ''iqn.2010-x:vol1''"
    and p: "target_portal example_iscsi_props = Some ''10.0.0.5:3260''"
    by (simp_all add: example_iscsi_props_def no_props_def)
  have c15: "connect_to_iscsi_portal (example_login_host 15) ''default'' example_iscsi_props [] =
     (Inr True, [?p, Exec session_command, ?l, ?u])"
    by (simp add: example_connect)
  have c8: "connect_to_iscsi_portal (example_login_host 8) ''default'' example_iscsi_props [] =
     (Inr False, [?p, Exec session_command, ?l])"
    by (simp add: example_connect)
  have pre15: "prefix ([?p, Exec session_command] @ [?l]) [?p, Exec session_command, ?l, ?u]
      \<and> prefix [] [?p, Exec session_command]"
    by simp
  from connect_to_iscsi_portal_login [OF i p c15, rule_format, OF pre15]
  obtain hs ss where hs: "[?p, Exec session_command] = hs @ [Exec session_command]"
      "session_entries (splitlines (snd (run (example_login_host 15) hs session_command))) = Inr ss"
    by blast
  from hs(1) have "hs = [?p]" by simp
  with hs(2) have "session_entries (splitlines (snd (run (example_login_host 15) [?p] session_command)))
      = Inr [(''10.0.0.9:3260,1'', ''iqn.2010-x:other'')]"
    by (simp add: example_login_host_def quiet_host_def example_sessions_parsed)
  with c15 c8 show ?thesis by simp
qed

subsection \<open>Disconnecting a target without multipath\<close>

lemma contains_iff: "contains sub s = (\<exists>a b. s = a @ sub @ b)"
proof (induction s)
  case Nil
  then show ?case by auto
next
  case (Cons c cs)
  show ?case
  proof
    assume "contains sub (c # cs)"
    then consider "prefix sub (c # cs)" | "contains sub cs" by auto
    then show "\<exists>a b. c # cs = a @ sub @ b"
    proof cases
      case 1
      then obtain b where "c # cs = sub @ b" by (auto simp: prefix_def)
      then have "c # cs = [] @ sub @ b" by simp
      then show ?thesis by blast
    next
      case 2
      with Cons obtain a b where "cs = a @ sub @ b" by blast
      then have "c # cs = (c # a) @ sub @ b" by simp
      then show ?thesis by blast
    qed
  next
    assume "\<exists>a b. c # cs = a @ sub @ b"
    then obtain a b where ab: "c # cs = a @ sub @ b" by blast
    show "contains sub (c # cs)"
    proof (cases a)
      case Nil
      with ab have "prefix sub (c # cs)" by (simp add: prefix_def)
      then show ?thesis by simp
    next
      case (Cons a1 as)
      with ab have "cs = as @ sub @ b" by simp
      with Cons.IH have "contains sub cs" by blast
      then show ?thesis by simp
    qed
  qed
qed

lemma disconnect_from_iscsi_portal_trace:
  assumes "target_iqn props = Some iqn" "target_portal props = Some portal"
  shows "\<exists>cs. snd (disconnect_from_iscsi_portal env props h) = h @ map Exec cs
           \<and> cs \<noteq> [] \<and> prefix cs (logout_commands iqn portal)
           \<and> ((\<forall>h'. \<forall>c \<in> set (logout_commands iqn portal). fst (run env h' c) \<in> {0, 21, 255})
                \<longrightarrow> cs = logout_commands iqn portal
                    \<and> fst (disconnect_from_iscsi_portal env props h) = Inr ())"
proof -
  let ?c1 = "startup_command iqn portal ''manual''"
  let ?c2 = "node_command iqn portal [''--logout'']"
  let ?c3 = "node_command iqn portal [''--op'', ''delete'']"
  let ?ok = "\<lambda>h c. fst (run env h c) \<in> set [0, 21, 255]"
  have eq: "disconnect_from_iscsi_portal env props h =
      (if ?ok h ?c1
       then (if ?ok (h @ [Exec ?c1]) ?c2
             then (if ?ok (h @ [Exec ?c1, Exec ?c2]) ?c3
                   then (Inr (), h @ map Exec [?c1, ?c2, ?c3])
                   else (Inl (ProcessExecutionError (fst (run env (h @ [Exec ?c1, Exec ?c2]) ?c3))),
                         h @ map Exec [?c1, ?c2, ?c3]))
             else (Inl (ProcessExecutionError (fst (run env (h @ [Exec ?c1]) ?c2))),
                   h @ map Exec [?c1, ?c2]))
       else (Inl (ProcessExecutionError (fst (run env h ?c1))), h @ map Exec [?c1]))"
    unfolding disconnect_from_iscsi_portal_def iscsiadm_update_def run_iscsiadm_eq [OF assms]
      startup_command_def
    by (simp add: bind_def execute_eq return_def)
  have all: "(\<forall>h'. \<forall>c \<in> set (logout_commands iqn portal). fst (run env h' c) \<in> {0, 21, 255})
      \<Longrightarrow> ?ok h ?c1 \<and> ?ok (h @ [Exec ?c1]) ?c2 \<and> ?ok (h @ [Exec ?c1, Exec ?c2]) ?c3"
    by (simp add: logout_commands_def)
  show ?thesis
  proof (cases "?ok h ?c1")
    case False
    then have "snd (disconnect_from_iscsi_portal env props h) = h @ map Exec [?c1]"
      unfolding eq by simp
    moreover have "prefix [?c1] (logout_commands iqn portal)" by (simp add: logout_commands_def)
    ultimately show ?thesis using False all by (intro exI [of _ "[?c1]"]) auto
  next
    case ok1: True
    show ?thesis
    proof (cases "?ok (h @ [Exec ?c1]) ?c2")
      case False
      then have "snd (disconnect_from_iscsi_portal env props h) = h @ map Exec [?c1, ?c2]"
        unfolding eq using ok1 by simp
      moreover have "prefix [?c1, ?c2] (logout_commands iqn portal)" by (simp add: logout_commands_def)
      ultimately show ?thesis using False all by (intro exI [of _ "[?c1, ?c2]"]) auto
    next
      case ok2: True
      have s: "snd (disconnect_from_iscsi_portal env props h) = h @ map Exec [?c1, ?c2, ?c3]"
        unfolding eq using ok1 ok2 by simp
      have f: "?ok (h @ [Exec ?c1, Exec ?c2]) ?c3 \<Longrightarrow> fst (disconnect_from_iscsi_portal env props h) = Inr ()"
        unfolding eq using ok1 ok2 by simp
      have l: "[?c1, ?c2, ?c3] = logout_commands iqn portal" by (simp add: logout_commands_def)
      show ?thesis using s f all unfolding l by (intro exI [of _ "logout_commands iqn portal"]) (auto simp: logout_commands_def)
    qed
  qed
qed

lemma devices_in_use_empty:
  "(devices_in_use env byname h = []) =
     (\<not> (\<exists>dev \<in> set (all_block_devices env h).
           prefix ''/dev/disk/by-path/'' dev \<and> (\<exists>a b. dev = a @ byname @ b)
           \<and> path_exists env h dev))"
  by (auto simp: devices_in_use_def filter_empty_conv contains_iff)

lemma disconnect_volume_iscsi_eq:
  assumes "target_iqn props = Some iqn" "target_portal props = Some portal"
    and "get_device_path env transport props h = Inr (host_device # others)"
    and "\<forall>h' e. utility_error env h' e = None"
  shows "disconnect_volume_iscsi env transport props h =
     (if devices_in_use env (''ip-'' @ portal @ ''-iscsi-'' @ iqn @ ''-lun-'')
           (h @ removal_events env h host_device) = []
      then disconnect_from_iscsi_portal env props (h @ removal_events env h host_device)
      else (Inr (), h @ removal_events env h host_device))"
  unfolding disconnect_volume_iscsi_def
  by (simp add: assms bind_def observe_def lift_def subscript_def return_def utility_def
      removal_events_def)

text \<open>With no candidate device path, nothing is done.\<close>

lemma disconnect_volume_iscsi_empty:
  "get_device_path env transport props h = Inr [] \<Longrightarrow>
     disconnect_volume_iscsi env transport props h = (Inr (), h)"
  by (simp add: disconnect_volume_iscsi_def bind_def observe_def return_def)

text \<open>
  C3, as the code has it. Take a target with portal and iqn whose list of candidate device
  paths is not empty (it never is with the default transport), and a SCSI utility that
  raises nothing. Disconnecting it first removes the SCSI device of the first candidate
  path and waits for its removal, when the utility finds a device name for that path.
  Then the commands of the portal logout are run if and only if none of the block devices
  that the driver reports starts with \<open>/dev/disk/by-path/\<close>, contains
  \<open>ip-{portal}-iscsi-{iqn}-lun-\<close> and exists. They are run in the order startup manual,
  logout, delete, up to the first that fails: all three when each exits with one of the
  codes 0, 21 and 255.
\<close>

theorem disconnect_volume_iscsi_logout:
  assumes "target_iqn props = Some iqn" "target_portal props = Some portal"
    and "get_device_path env transport props h = Inr (host_device # others)"
    and "\<forall>h' e. utility_error env h' e = None"
  shows "\<exists>cs. snd (disconnect_volume_iscsi env transport props h)
              = h @ removal_events env h host_device @ map Exec cs
     \<and> (cs \<noteq> [] \<longleftrightarrow>
          \<not> (\<exists>dev \<in> set (all_block_devices env (h @ removal_events env h host_device)).
                prefix ''/dev/disk/by-path/'' dev
                \<and> (\<exists>a b. dev = a @ (''ip-'' @ portal @ ''-iscsi-'' @ iqn @ ''-lun-'') @ b)
                \<and> path_exists env (h @ removal_events env h host_device) dev))
     \<and> prefix cs (logout_commands iqn portal)
     \<and> (cs = [] \<longrightarrow> fst (disconnect_volume_iscsi env transport props h) = Inr ())
     \<and> (cs \<noteq> [] \<and> (\<forall>h'. \<forall>c \<in> set (logout_commands iqn portal). fst (run env h' c) \<in> {0, 21, 255})
          \<longrightarrow> cs = logout_commands iqn portal
              \<and> fst (disconnect_volume_iscsi env transport props h) = Inr ())"
proof -
  let ?h1 = "h @ removal_events env h host_device"
  let ?byname = "''ip-'' @ portal @ ''-iscsi-'' @ iqn @ ''-lun-''"
  note eq = disconnect_volume_iscsi_eq [OF assms]
  note emp = devices_in_use_empty [of env ?byname ?h1]
  show ?thesis
  proof (cases "devices_in_use env ?byname ?h1 = []")
    case True
    from disconnect_from_iscsi_portal_trace [OF assms(1,2), of env ?h1]
    obtain cs where cs: "snd (disconnect_from_iscsi_portal env props ?h1) = ?h1 @ map Exec cs"
        "cs \<noteq> []" "prefix cs (logout_commands iqn portal)"
        "(\<forall>h'. \<forall>c \<in> set (logout_commands iqn portal). fst (run env h' c) \<in> {0, 21, 255})
           \<longrightarrow> cs = logout_commands iqn portal
               \<and> fst (disconnect_from_iscsi_portal env props ?h1) = Inr ()"
      by blast
    have d: "disconnect_volume_iscsi env transport props h = disconnect_from_iscsi_portal env props ?h1"
      using eq True by simp
    show ?thesis
      unfolding d using cs True emp by (intro exI [of _ cs]) simp
  next
    case False
    have d: "disconnect_volume_iscsi env transport props h = (Inr (), ?h1)"
      using eq False by simp
    show ?thesis
      unfolding d using False emp by (intro exI [of _ "[]"]) simp
  qed
qed

theorem disconnect_volume_iscsi_logout_witness:
  "disconnect_volume_iscsi (example_disconnect_host True) ''default'' example_iscsi_props [] =
     (Inr (), [RemoveScsiDevice ''sdb'', WaitForVolumeRemoval example_iscsi_path])
   \<and> disconnect_volume_iscsi (example_disconnect_host False) ''default'' example_iscsi_props [] =
     (Inr (), [RemoveScsiDevice ''sdb'', WaitForVolumeRemoval example_iscsi_path]
              @ map Exec (logout_commands ''iqn.2010-x:vol1'' ''10.0.0.5:3260''))"
proof -
  let ?iqn = "''iqn.2010-x:vol1''" and ?portal = "''10.0.0.5:3260''"
  let ?rem = "[RemoveScsiDevice ''sdb'', WaitForVolumeRemoval example_iscsi_path]"
  have i: "target_iqn example_iscsi_props = Some ?iqn"
    and p: "target_portal example_iscsi_props = Some ?portal"
    by (simp_all add: example_iscsi_props_def no_props_def)
  have u: "\<And>b. \<forall>h' e. utility_error (example_disconnect_host b) h' e = None"
    by (simp add: example_disconnect_host_def quiet_host_def)
  have rem: "\<And>b. removal_events (example_disconnect_host b) [] example_iscsi_path = ?rem"
    by (simp add: removal_events_def example_disconnect_host_def quiet_host_def truthy_def)
  have other: "prefix ''/dev/disk/by-path/'' example_other_lun
      \<and> (\<exists>a b. example_other_lun = a @ (''ip-'' @ ?portal @ ''-iscsi-'' @ ?iqn @ ''-lun-'') @ b)"
  proof
    show "prefix ''/dev/disk/by-path/'' example_other_lun" by (simp add: example_other_lun_def)
    have "example_other_lun = ''/dev/disk/by-path/'' @ (''ip-'' @ ?portal @ ''-iscsi-'' @ ?iqn @ ''-lun-'') @ ''1''"
      by (simp add: example_other_lun_def)
    then show "\<exists>a b. example_other_lun = a @ (''ip-'' @ ?portal @ ''-iscsi-'' @ ?iqn @ ''-lun-'') @ b"
      by blast
  qed
  have abd: "\<And>b h. all_block_devices (example_disconnect_host b) h = [example_other_lun]"
    and pe: "\<And>b h q. path_exists (example_disconnect_host b) h q = (b \<and> q = example_other_lun)"
    and rn: "\<And>b h c. fst (run (example_disconnect_host b) h c) = 0"
    by (simp_all add: example_disconnect_host_def quiet_host_def)
  from disconnect_volume_iscsi_logout [of example_iscsi_props ?iqn ?portal
      "example_disconnect_host True" "''default''" "[]" example_iscsi_path "[]",
      OF i p example_device_path u]
  obtain cs where cs: "snd (disconnect_volume_iscsi (example_disconnect_host True) ''default'' example_iscsi_props [])
              = [] @ ?rem @ map Exec cs"
      "cs \<noteq> [] \<longleftrightarrow>
          \<not> (\<exists>dev \<in> set (all_block_devices (example_disconnect_host True) ([] @ ?rem)).
                prefix ''/dev/disk/by-path/'' dev
                \<and> (\<exists>a b. dev = a @ (''ip-'' @ ?portal @ ''-iscsi-'' @ ?iqn @ ''-lun-'') @ b)
                \<and> path_exists (example_disconnect_host True) ([] @ ?rem) dev)"
      "cs = [] \<longrightarrow> fst (disconnect_volume_iscsi (example_disconnect_host True) ''default'' example_iscsi_props []) = Inr ()"
    unfolding rem by blast
  from cs(2) other have "cs = []" unfolding abd pe by auto
  with cs(1,3) have 1: "disconnect_volume_iscsi (example_disconnect_host True) ''default'' example_iscsi_props [] =
     (Inr (), ?rem)"
    by (cases "disconnect_volume_iscsi (example_disconnect_host True) ''default'' example_iscsi_props []") simp
  from disconnect_volume_iscsi_logout [of example_iscsi_props ?iqn ?portal
      "example_disconnect_host False" "''default''" "[]" example_iscsi_path "[]",
      OF i p example_device_path u]
  obtain cs' where cs': "snd (disconnect_volume_iscsi (example_disconnect_host False) ''default'' example_iscsi_props [])
              = [] @ ?rem @ map Exec cs'"
      "cs' \<noteq> [] \<longleftrightarrow>
          \<not> (\<exists>dev \<in> set (all_block_devices (example_disconnect_host False) ([] @ ?rem)).
                prefix ''/dev/disk/by-path/'' dev
                \<and> (\<exists>a b. dev = a @ (''ip-'' @ ?portal @ ''-iscsi-'' @ ?iqn @ ''-lun-'') @ b)
                \<and> path_exists (example_disconnect_host False) ([] @ ?rem) dev)"
      "cs' \<noteq> [] \<and> (\<forall>h'. \<forall>c \<in> set (logout_commands ?iqn ?portal).
            fst (run (example_disconnect_host False) h' c) \<in> {0, 21, 255})
          \<longrightarrow> cs' = logout_commands ?iqn ?portal
              \<and> fst (disconnect_volume_iscsi (example_disconnect_host False) ''default'' example_iscsi_props []) = Inr ()"
    unfolding rem by blast
  from cs'(2) have ne: "cs' \<noteq> []" unfolding pe by simp
  with cs'(3) have "cs' = logout_commands ?iqn ?portal"
      "fst (disconnect_volume_iscsi (example_disconnect_host False) ''default'' example_iscsi_props []) = Inr ()"
    unfolding rn by simp_all
  with cs'(1) have 2: "disconnect_volume_iscsi (example_disconnect_host False) ''default'' example_iscsi_props [] =
     (Inr (), ?rem @ map Exec (logout_commands ?iqn ?portal))"
    by (cases "disconnect_volume_iscsi (example_disconnect_host False) ''default'' example_iscsi_props []") simp
  from 1 2 show ?thesis by simp
qed

text \<open>
  With an offload transport and no device path that matches the glob pattern, nothing is
  removed and no logout is run, although the driver reports no block device at all.
\<close>

theorem disconnect_volume_iscsi_no_logout_counterexample:
  "disconnect_volume_iscsi quiet_host ''iser'' example_iscsi_props [] = (Inr (), [])
   \<and> all_block_devices quiet_host [] = []"
  by (simp add: disconnect_volume_iscsi_def get_device_path_def get_all_targets_def
      example_iscsi_props_def no_props_def subscript_def bind_def observe_def return_def
      quiet_host_def)

subsection \<open>Multipath targets\<close>

lemma is_probe_node_command: "is_probe (node_command iqn portal args) = (args = [])"
  by (auto simp: is_probe_def node_command_def)

lemma multipath_targets_shared:
  assumes "\<forall>xs. distinct (set_order env xs) \<and> set (set_order env xs) = set xs"
    and "card (fst ` set found) = card {ip. (ip, main_iqn) \<in> set found}"
  shows "set (multipath_targets env main_iqn found) = (\<lambda>ip. (ip, main_iqn)) ` fst ` set found"
    and "distinct (multipath_targets env main_iqn found)"
proof -
  let ?all = "map fst found"
  have m: "set (map fst (filter (\<lambda>(ip, iqn). iqn = main_iqn) found)) = {ip. (ip, main_iqn) \<in> set found}"
    by force
  have d: "distinct (set_order env ?all)" and s: "set (set_order env ?all) = set ?all"
    using assms(1) by simp_all
  have len: "length (set_order env ?all) = card (set ?all)"
    using d s by (metis distinct_card)
  have eq: "multipath_targets env main_iqn found
      = zip (set_order env ?all) (replicate (length (set_order env ?all)) main_iqn)"
    using assms(2) unfolding multipath_targets_def Let_def m len by simp
  have z: "\<And>xs. zip xs (replicate (length xs) main_iqn) = map (\<lambda>ip. (ip, main_iqn)) xs"
    by (induct_tac xs) auto
  show "set (multipath_targets env main_iqn found) = (\<lambda>ip. (ip, main_iqn)) ` fst ` set found"
    unfolding eq z using s by simp
  show "distinct (multipath_targets env main_iqn found)"
    unfolding eq z using d by (simp add: distinct_map inj_on_def)
qed

lemma multipath_targets_distinct_iqns:
  assumes "card (fst ` set found) \<noteq> card {ip. (ip, main_iqn) \<in> set found}"
  shows "multipath_targets env main_iqn found = found"
proof -
  have m: "set (map fst (filter (\<lambda>(ip, iqn). iqn = main_iqn) found)) = {ip. (ip, main_iqn) \<in> set found}"
    by force
  show ?thesis using assms unfolding multipath_targets_def Let_def m by simp
qed

lemma rescan_iscsi_result:
  "rescan_iscsi env h = (Inr u, h') \<Longrightarrow>
     h' = h @ [Exec [''iscsiadm'', ''-m'', ''node'', ''--rescan''],
               Exec [''iscsiadm'', ''-m'', ''session'', ''--rescan'']]"
  by (auto simp: rescan_iscsi_def run_iscsiadm_bare_def bind_def execute_eq return_def
      split: if_splits)

lemma connect_volume_sessions_multipath:
  assumes "target_iqns props = None \<or> target_iqns props = Some []"
    and "target_iqn props = Some main_iqn"
    and "discover_iscsi_portals env props h = (Inr found, h1)"
    and "connect_volume_sessions env True transport props h = (Inr res, h')"
  shows "\<exists>h2. connect_each env transport props (multipath_targets env main_iqn found) h1 = (Inr (), h2)
           \<and> h' = h2 @ [Exec [''iscsiadm'', ''-m'', ''node'', ''--rescan''],
                           Exec [''iscsiadm'', ''-m'', ''session'', ''--rescan'']]"
proof -
  let ?targets = "multipath_targets env main_iqn found"
  obtain r2 h2 where ce: "connect_each env transport props ?targets h1 = (r2, h2)"
    by (cases "connect_each env transport props ?targets h1")
  obtain r3 h3 where rs: "rescan_iscsi env h2 = (r3, h3)"
    by (cases "rescan_iscsi env h2")
  have eq: "connect_volume_sessions env True transport props h =
      (case r2 of Inl e \<Rightarrow> (Inl e, h2)
       | Inr u \<Rightarrow> (case r3 of Inl e \<Rightarrow> (Inl e, h3)
           | Inr u \<Rightarrow> (case get_device_path env transport props h3 of
                Inl e \<Rightarrow> (Inl e, h3) | Inr devs \<Rightarrow> (Inr (devs, props), h3))))"
    using assms(1,2,3) ce rs
    by (auto simp: connect_volume_sessions_def bind_def lift_def subscript_def return_def
        observe_def split: sum.splits)
  from assms(4) eq obtain u u' where "r2 = Inr u" "r3 = Inr u'" "h' = h3"
    by (auto split: sum.splits)
  with ce rs rescan_iscsi_result [of env h2 u' h3] show ?thesis by auto
qed

lemma connect_segment:
  assumes "target_iqn props = Some iqn" "target_portal props = Some portal"
    and "connect_to_iscsi_portal env transport props h = (Inr b, h')"
  shows "\<exists>pre ss tail.
       h' = h @ (Exec (node_command iqn portal []) # pre) @ Exec session_command # tail
     \<and> filter is_probe (commands pre) = []
     \<and> session_entries (splitlines (snd (run env (h @ Exec (node_command iqn portal []) # pre)
           session_command))) = Inr ss
     \<and> ((\<exists>s \<in> set ss. session_matches props (hd (split_on CHR '','' portal)) s) \<longrightarrow> tail = [])
     \<and> (\<not> (\<exists>s \<in> set ss. session_matches props (hd (split_on CHR '','' portal)) s) \<longrightarrow>
          tail = [Exec (login_command iqn portal)]
          \<or> tail = [Exec (login_command iqn portal),
                     Exec (startup_command iqn portal ''automatic'')])"
proof -
  let ?P = "\<lambda>e. \<exists>args. e = Exec (node_command iqn portal args) \<and> length args \<in> {4, 6}"
  from prepare_node_trace [OF assms(1,2), of env transport h]
  obtain r1 pre where p: "prepare_node env transport props h = (r1, h @ Exec (node_command iqn portal []) # pre)"
    and pre: "list_all ?P pre"
    by blast
  let ?hs = "h @ Exec (node_command iqn portal []) # pre"
  let ?s = "Exec session_command"
  let ?l = "Exec (login_command iqn portal)"
  let ?u = "Exec (startup_command iqn portal ''automatic'')"
  let ?parse = "session_entries (splitlines (snd (run env ?hs session_command)))"
  let ?match = "\<lambda>ss. \<exists>s \<in> set ss. session_matches props (hd (split_on CHR '','' portal)) s"
  have np: "filter is_probe (commands pre) = []"
    using pre by (induction pre rule: commands.induct) (auto simp: is_probe_node_command)
  obtain u where r1: "r1 = Inr u"
    using p assms(3) by (cases r1) (auto simp: connect_to_iscsi_portal_def bind_def)
  with p assms(3) have res: "(Inr b, h') = login_unless_session env props ?hs"
    by (simp add: connect_to_iscsi_portal_def bind_def)
  note eq = login_unless_session_eq [OF assms(1,2), of env ?hs]
  have ok: "fst (run env ?hs session_command) \<in> {0, 1, 21}"
  proof (rule ccontr)
    assume "\<not> ?thesis"
    then show False using res unfolding eq Let_def by simp
  qed
  obtain ss where ss: "?parse = Inr ss"
  proof (cases ?parse)
    case (Inl e)
    then have False using res ok unfolding eq Let_def by simp
    then show ?thesis ..
  next
    case (Inr ss)
    then show ?thesis by (rule that)
  qed
  have m: "?match ss \<Longrightarrow> h' = ?hs @ [?s]"
    using res ok ss unfolding eq Let_def by simp
  have n: "\<not> ?match ss \<Longrightarrow> h' = ?hs @ [?s, ?l] \<or> h' = ?hs @ [?s, ?l, ?u]"
  proof -
    assume nm: "\<not> ?match ss"
    show ?thesis
    proof (cases "fst (run env (?hs @ [?s]) (login_command iqn portal)) \<in> {0, 255, 15}")
      case True
      then have "h' = ?hs @ [?s, ?l, ?u]" using res ok ss nm unfolding eq Let_def by simp
      then show ?thesis by simp
    next
      case False
      then have "h' = ?hs @ [?s, ?l]" using res ok ss nm unfolding eq Let_def by simp
      then show ?thesis by simp
    qed
  qed
  show ?thesis
  proof (cases "?match ss")
    case True
    with m have "h' = h @ (Exec (node_command iqn portal []) # pre) @ ?s # []" by simp
    with np ss True show ?thesis by blast
  next
    case False
    with n consider "h' = h @ (Exec (node_command iqn portal []) # pre) @ ?s # [?l]"
      | "h' = h @ (Exec (node_command iqn portal []) # pre) @ ?s # [?l, ?u]"
      by auto
    then show ?thesis
    proof cases
      case 1
      with np ss False show ?thesis by blast
    next
      case 2
      with np ss False show ?thesis by blast
    qed
  qed
qed

lemma filter_probe_tail:
  "tail = [] \<or> tail = [Exec (login_command iqn portal)]
     \<or> tail = [Exec (login_command iqn portal), Exec (startup_command iqn portal ''automatic'')]
   \<Longrightarrow> filter is_probe (commands tail) = []"
  by (auto simp: login_command_def startup_command_def is_probe_node_command update_command_def)

lemma not_probe_session: "\<not> is_probe session_command"
  by (simp add: is_probe_def session_command_def)

lemma connect_each_sessions:
  "connect_each env transport props pairs h = (Inr (), h') \<Longrightarrow>
     \<exists>evs. h' = h @ evs
       \<and> (evs = [] \<or> (\<exists>c r. evs = Exec c # r \<and> is_probe c))
       \<and> filter is_probe (commands evs) = map (\<lambda>x. node_command (snd x) (fst x) []) pairs
       \<and> (\<forall>i < length pairs. \<exists>before after ss.
             evs = before @ Exec session_command # after
           \<and> filter is_probe (commands before)
               = map (\<lambda>x. node_command (snd x) (fst x) []) (take (Suc i) pairs)
           \<and> session_entries (splitlines (snd (run env (h @ before) session_command))) = Inr ss
           \<and> ((\<exists>s \<in> set ss. hd (split_on CHR '','' (fst s)) = hd (split_on CHR '','' (fst (pairs ! i)))
                               \<and> snd s = snd (pairs ! i))
                \<longrightarrow> after = [] \<or> (\<exists>c r. after = Exec c # r \<and> is_probe c))
           \<and> (\<not> (\<exists>s \<in> set ss. hd (split_on CHR '','' (fst s)) = hd (split_on CHR '','' (fst (pairs ! i)))
                               \<and> snd s = snd (pairs ! i))
                \<longrightarrow> (\<exists>r. after = Exec (login_command (snd (pairs ! i)) (fst (pairs ! i))) # r)))"
proof (induction pairs arbitrary: h)
  case Nil
  then have "h' = h" by (simp add: return_def)
  then show ?case by (intro exI [of _ "[]"]) simp
next
  case (Cons x xs)
  let ?props = "props\<lparr>target_portal := Some (fst x), target_iqn := Some (snd x)\<rparr>"
  let ?probe = "Exec (node_command (snd x) (fst x) [])"
  let ?s = "Exec session_command"
  let ?M = "\<lambda>y ss. \<exists>s \<in> set ss. hd (split_on CHR '','' (fst s)) = hd (split_on CHR '','' (fst y))
                               \<and> snd s = snd y"
  obtain r1 h1 where c1: "connect_to_iscsi_portal env transport ?props h = (r1, h1)"
    by (cases "connect_to_iscsi_portal env transport ?props h")
  with Cons.prems obtain b where r1: "r1 = Inr b"
    by (cases r1) (auto simp: bind_def)
  with c1 Cons.prems have rest: "connect_each env transport props xs h1 = (Inr (), h')"
    by (simp add: bind_def)
  have i: "target_iqn ?props = Some (snd x)" and p: "target_portal ?props = Some (fst x)" by simp_all
  from connect_segment [OF i p c1 [unfolded r1]]
  obtain pre ss tail where seg: "h1 = h @ (?probe # pre) @ ?s # tail"
      "filter is_probe (commands pre) = []"
      "session_entries (splitlines (snd (run env (h @ ?probe # pre) session_command))) = Inr ss"
      "(\<exists>s \<in> set ss. session_matches ?props (hd (split_on CHR '','' (fst x))) s) \<longrightarrow> tail = []"
      "\<not> (\<exists>s \<in> set ss. session_matches ?props (hd (split_on CHR '','' (fst x))) s) \<longrightarrow>
          tail = [Exec (login_command (snd x) (fst x))]
          \<or> tail = [Exec (login_command (snd x) (fst x)),
                     Exec (startup_command (snd x) (fst x) ''automatic'')]"
    by blast
  have "\<And>s st. session_matches ?props st s = (hd (split_on CHR '','' (fst s)) = st \<and> snd s = snd x)"
    unfolding session_matches_def by auto
  then have meq: "(\<exists>s \<in> set ss. session_matches ?props (hd (split_on CHR '','' (fst x))) s) = ?M x ss"
    by simp
  have tl: "filter is_probe (commands tail) = []"
    using seg(4,5) by (intro filter_probe_tail [of tail "snd x" "fst x"]) blast
  from Cons.IH [OF rest] obtain evs' where ih: "h' = h1 @ evs'"
      "evs' = [] \<or> (\<exists>c r. evs' = Exec c # r \<and> is_probe c)"
      "filter is_probe (commands evs') = map (\<lambda>x. node_command (snd x) (fst x) []) xs"
      "\<forall>i < length xs. \<exists>before after ss.
             evs' = before @ ?s # after
           \<and> filter is_probe (commands before)
               = map (\<lambda>x. node_command (snd x) (fst x) []) (take (Suc i) xs)
           \<and> session_entries (splitlines (snd (run env (h1 @ before) session_command))) = Inr ss
           \<and> (?M (xs ! i) ss \<longrightarrow> after = [] \<or> (\<exists>c r. after = Exec c # r \<and> is_probe c))
           \<and> (\<not> ?M (xs ! i) ss
                \<longrightarrow> (\<exists>r. after = Exec (login_command (snd (xs ! i)) (fst (xs ! i))) # r))"
    by blast
  let ?seg = "(?probe # pre) @ ?s # tail"
  let ?evs = "?seg @ evs'"
  have h': "h' = h @ ?evs" using ih(1) seg(1) by simp
  have first: "?evs = [] \<or> (\<exists>c r. ?evs = Exec c # r \<and> is_probe c)"
    by (simp add: is_probe_node_command)
  have fseg: "filter is_probe (commands ?seg) = [node_command (snd x) (fst x) []]"
    using seg(2) tl by (simp add: commands_append is_probe_node_command not_probe_session)
  have probes: "filter is_probe (commands ?evs) = map (\<lambda>x. node_command (snd x) (fst x) []) (x # xs)"
    using fseg ih(3) by (simp only: commands_append filter_append) simp
  have each: "\<forall>i < length (x # xs). \<exists>before after ss.
             ?evs = before @ ?s # after
           \<and> filter is_probe (commands before)
               = map (\<lambda>x. node_command (snd x) (fst x) []) (take (Suc i) (x # xs))
           \<and> session_entries (splitlines (snd (run env (h @ before) session_command))) = Inr ss
           \<and> (?M ((x # xs) ! i) ss \<longrightarrow> after = [] \<or> (\<exists>c r. after = Exec c # r \<and> is_probe c))
           \<and> (\<not> ?M ((x # xs) ! i) ss
                \<longrightarrow> (\<exists>r. after = Exec (login_command (snd ((x # xs) ! i)) (fst ((x # xs) ! i))) # r))"
  proof (intro allI impI)
    fix i assume il: "i < length (x # xs)"
    show "\<exists>before after ss.
             ?evs = before @ ?s # after
           \<and> filter is_probe (commands before)
               = map (\<lambda>x. node_command (snd x) (fst x) []) (take (Suc i) (x # xs))
           \<and> session_entries (splitlines (snd (run env (h @ before) session_command))) = Inr ss
           \<and> (?M ((x # xs) ! i) ss \<longrightarrow> after = [] \<or> (\<exists>c r. after = Exec c # r \<and> is_probe c))
           \<and> (\<not> ?M ((x # xs) ! i) ss
                \<longrightarrow> (\<exists>r. after = Exec (login_command (snd ((x # xs) ! i)) (fst ((x # xs) ! i))) # r))"
    proof (cases i)
      case 0
      have a: "?evs = (?probe # pre) @ ?s # (tail @ evs')" by simp
      have b: "filter is_probe (commands (?probe # pre))
          = map (\<lambda>x. node_command (snd x) (fst x) []) (take (Suc 0) (x # xs))"
        using seg(2) by (simp add: is_probe_node_command)
      have c: "session_entries (splitlines (snd (run env (h @ (?probe # pre)) session_command))) = Inr ss"
        using seg(3) by simp
      have d: "?M x ss \<longrightarrow> tail @ evs' = [] \<or> (\<exists>c r. tail @ evs' = Exec c # r \<and> is_probe c)"
        using seg(4) ih(2) unfolding meq by auto
      have e: "\<not> ?M x ss \<longrightarrow> (\<exists>r. tail @ evs' = Exec (login_command (snd x) (fst x)) # r)"
        using seg(5) unfolding meq by auto
      show ?thesis
        unfolding 0 using a b c d e
        by (intro exI [of _ "?probe # pre"] exI [of _ "tail @ evs'"] exI [of _ ss]) simp
    next
      case (Suc j)
      with il have jl: "j < length xs" by simp
      from ih(4) [rule_format, OF jl] obtain before after ss' where j:
          "evs' = before @ ?s # after"
          "filter is_probe (commands before)
               = map (\<lambda>x. node_command (snd x) (fst x) []) (take (Suc j) xs)"
          "session_entries (splitlines (snd (run env (h1 @ before) session_command))) = Inr ss'"
          "?M (xs ! j) ss' \<longrightarrow> after = [] \<or> (\<exists>c r. after = Exec c # r \<and> is_probe c)"
          "\<not> ?M (xs ! j) ss'
                \<longrightarrow> (\<exists>r. after = Exec (login_command (snd (xs ! j)) (fst (xs ! j))) # r)"
        by blast
      have a: "?evs = (?seg @ before) @ ?s # after" using j(1) by simp
      have b: "filter is_probe (commands (?seg @ before))
          = map (\<lambda>x. node_command (snd x) (fst x) []) (take (Suc (Suc j)) (x # xs))"
        using fseg j(2) by (simp only: commands_append filter_append) simp
      have c: "session_entries (splitlines (snd (run env (h @ (?seg @ before)) session_command))) = Inr ss'"
        using j(3) seg(1) by simp
      show ?thesis
        unfolding Suc using a b c j(4,5)
        by (intro exI [of _ "?seg @ before"] exI [of _ after] exI [of _ ss']) simp
    qed
  qed
  from h' first probes each show ?case by (intro exI [of _ ?evs] conjI)
qed

text \<open>
  C2, as the code has it. In multipath mode, when \<open>target_iqns\<close> is missing or empty, the
  discovered pairs are replaced as follows (a set being iterated without repetition, in
  some order). If the discovered portals and the discovered portals whose iqn is the
  caller's \<open>target_iqn\<close> are equally many, the targets are the caller's \<open>target_iqn\<close>
  paired with every discovered portal, each once; otherwise they are the discovered pairs,
  unchanged. When this part of \<open>connect_volume\<close> returns, the session of every one of
  these targets has been established in turn: the probes run after the discovery are those
  of the targets, in order, and for each target the active sessions are listed after its
  probe, and the next command is the login to that target if and only if none of the
  listed sessions has its portal (up to the first comma) and its iqn.
\<close>

theorem multipath_fan_out:
  assumes "\<forall>xs. distinct (set_order env xs) \<and> set (set_order env xs) = set xs"
    and "target_iqns props = None \<or> target_iqns props = Some []"
    and "target_iqn props = Some main_iqn"
    and "discover_iscsi_portals env props h = (Inr found, h1)"
    and "connect_volume_sessions env True transport props h = (Inr res, h')"
  shows "\<exists>targets.
     (card (fst ` set found) = card {ip. (ip, main_iqn) \<in> set found} \<longrightarrow>
        set targets = (\<lambda>ip. (ip, main_iqn)) ` fst ` set found \<and> distinct targets)
     \<and> (card (fst ` set found) \<noteq> card {ip. (ip, main_iqn) \<in> set found} \<longrightarrow> targets = found)
     \<and> filter is_probe (commands (drop (length h1) h'))
         = map (\<lambda>(ip, iqn). node_command iqn ip []) targets
     \<and> (\<forall>i < length targets. \<exists>before after ss.
           drop (length h1) h' = before @ Exec session_command # after
         \<and> filter is_probe (commands before)
             = map (\<lambda>(ip, iqn). node_command iqn ip []) (take (Suc i) targets)
         \<and> session_entries (splitlines (snd (run env (h1 @ before) session_command))) = Inr ss
         \<and> ((\<exists>r. after = Exec (login_command (snd (targets ! i)) (fst (targets ! i))) # r)
              \<longleftrightarrow> \<not> (\<exists>s \<in> set ss.
                     hd (split_on CHR '','' (fst s)) = hd (split_on CHR '','' (fst (targets ! i)))
                     \<and> snd s = snd (targets ! i))))"
proof -
  let ?targets = "multipath_targets env main_iqn found"
  let ?a = "[''iscsiadm'', ''-m'', ''node'', ''--rescan'']"
  let ?b = "[''iscsiadm'', ''-m'', ''session'', ''--rescan'']"
  let ?probe = "\<lambda>x :: string \<times> string. node_command (snd x) (fst x) []"
  let ?M = "\<lambda>y ss. \<exists>s \<in> set ss. hd (split_on CHR '','' (fst s)) = hd (split_on CHR '','' (fst y))
                               \<and> snd s = snd y"
  have pe: "(\<lambda>(ip, iqn). node_command iqn ip []) = ?probe" by (simp add: fun_eq_iff)
  from connect_volume_sessions_multipath [OF assms(2-5)]
  obtain h2 where ce: "connect_each env transport props ?targets h1 = (Inr (), h2)"
    and h': "h' = h2 @ [Exec ?a, Exec ?b]"
    by blast
  from connect_each_sessions [OF ce] obtain evs where evs: "h2 = h1 @ evs"
      "filter is_probe (commands evs) = map ?probe ?targets"
      "\<forall>i < length ?targets. \<exists>before after ss.
             evs = before @ Exec session_command # after
           \<and> filter is_probe (commands before) = map ?probe (take (Suc i) ?targets)
           \<and> session_entries (splitlines (snd (run env (h1 @ before) session_command))) = Inr ss
           \<and> (?M (?targets ! i) ss \<longrightarrow> after = [] \<or> (\<exists>c r. after = Exec c # r \<and> is_probe c))
           \<and> (\<not> ?M (?targets ! i) ss
                \<longrightarrow> (\<exists>r. after = Exec (login_command (snd (?targets ! i)) (fst (?targets ! i))) # r))"
    by blast
  have nr: "\<not> is_probe ?a" "\<not> is_probe ?b" by (simp_all add: is_probe_def)
  have nl: "\<And>iqn portal. \<not> is_probe (login_command iqn portal)"
      "\<And>iqn portal. ?a \<noteq> login_command iqn portal"
    by (simp_all add: login_command_def is_probe_node_command, simp add: node_command_def)
  have dr: "drop (length h1) h' = evs @ [Exec ?a, Exec ?b]" using h' evs(1) by simp
  have probes: "filter is_probe (commands (drop (length h1) h')) = map ?probe ?targets"
    unfolding dr using evs(2) nr by (simp add: commands_append)
  have each: "\<forall>i < length ?targets. \<exists>before after ss.
           drop (length h1) h' = before @ Exec session_command # after
         \<and> filter is_probe (commands before) = map ?probe (take (Suc i) ?targets)
         \<and> session_entries (splitlines (snd (run env (h1 @ before) session_command))) = Inr ss
         \<and> ((\<exists>r. after = Exec (login_command (snd (?targets ! i)) (fst (?targets ! i))) # r)
              \<longleftrightarrow> \<not> ?M (?targets ! i) ss)"
  proof (intro allI impI)
    fix i assume il: "i < length ?targets"
    from evs(3) [rule_format, OF il] obtain before after ss where b:
        "evs = before @ Exec session_command # after"
        "filter is_probe (commands before) = map ?probe (take (Suc i) ?targets)"
        "session_entries (splitlines (snd (run env (h1 @ before) session_command))) = Inr ss"
        "?M (?targets ! i) ss \<longrightarrow> after = [] \<or> (\<exists>c r. after = Exec c # r \<and> is_probe c)"
        "\<not> ?M (?targets ! i) ss
           \<longrightarrow> (\<exists>r. after = Exec (login_command (snd (?targets ! i)) (fst (?targets ! i))) # r)"
      by blast
    let ?after = "after @ [Exec ?a, Exec ?b]"
    let ?l = "login_command (snd (?targets ! i)) (fst (?targets ! i))"
    have 1: "drop (length h1) h' = before @ Exec session_command # ?after"
      unfolding dr b(1) by simp
    have 2: "(\<exists>r. ?after = Exec ?l # r) \<longleftrightarrow> \<not> ?M (?targets ! i) ss"
    proof
      assume "\<exists>r. ?after = Exec ?l # r"
      then obtain r where r: "?after = Exec ?l # r" by blast
      show "\<not> ?M (?targets ! i) ss"
      proof
        assume "?M (?targets ! i) ss"
        with b(4) consider "after = []" | c r' where "after = Exec c # r'" "is_probe c" by blast
        then show False
        proof cases
          case 1
          with r have "?a = ?l" by simp
          with nl(2) show False by blast
        next
          case 2
          with r have "c = ?l" by simp
          with 2(2) nl(1) show False by blast
        qed
      qed
    next
      assume "\<not> ?M (?targets ! i) ss"
      with b(5) obtain r where "after = Exec ?l # r" by blast
      then have "?after = Exec ?l # (r @ [Exec ?a, Exec ?b])" by simp
      then show "\<exists>r. ?after = Exec ?l # r" by blast
    qed
    from 1 b(2,3) 2
    show "\<exists>before after ss.
           drop (length h1) h' = before @ Exec session_command # after
         \<and> filter is_probe (commands before) = map ?probe (take (Suc i) ?targets)
         \<and> session_entries (splitlines (snd (run env (h1 @ before) session_command))) = Inr ss
         \<and> ((\<exists>r. after = Exec (login_command (snd (?targets ! i)) (fst (?targets ! i))) # r)
              \<longleftrightarrow> \<not> ?M (?targets ! i) ss)"
      by (intro exI [of _ before] exI [of _ ?after] exI [of _ ss] conjI)
  qed
  have f1: "card (fst ` set found) = card {ip. (ip, main_iqn) \<in> set found} \<longrightarrow>
        set ?targets = (\<lambda>ip. (ip, main_iqn)) ` fst ` set found \<and> distinct ?targets"
    using multipath_targets_shared [OF assms(1)] by blast
  have f2: "card (fst ` set found) \<noteq> card {ip. (ip, main_iqn) \<in> set found} \<longrightarrow> ?targets = found"
    using multipath_targets_distinct_iqns by blast
  show ?thesis
    unfolding pe using f1 f2 probes each by (intro exI [of _ ?targets] conjI)
qed

lemma connect_fresh:
  assumes "target_iqn props = Some iqn" "target_portal props = Some portal"
    and "\<not> truthy (auth_method props)"
    and "\<forall>h c. fst (run env h c) = 0"
    and "\<forall>h. snd (run env h session_command) = []"
  shows "connect_to_iscsi_portal env transport props h =
     (Inr True, h @ [Exec (node_command iqn portal []), Exec session_command,
                     Exec (login_command iqn portal),
                     Exec (startup_command iqn portal ''automatic'')])"
proof -
  have prep: "prepare_node env transport props h = (Inr (), h @ [Exec (node_command iqn portal [])])"
    unfolding prepare_node_def run_iscsiadm_eq [OF assms(1,2)]
    by (simp add: assms(3,4) bind_def catch_exit_code_def execute_eq return_def)
  have sp: "splitlines [] = []" by (subst splitlines.simps) simp
  show ?thesis
    unfolding connect_to_iscsi_portal_def
    by (simp add: bind_def prep login_unless_session_eq [OF assms(1,2)] assms(4,5) sp Let_def)
qed

lemma example_discovered_parsed:
  "get_target_portals_from_iscsiadm_output example_discovered =
     [(''10.0.0.1:3260,1'', ''iqn.2010-x:vol1''), (''10.0.0.2:3260,1'', ''iqn.2010-x:vol1'')]"
  by code_simp

lemma example_discover:
  "discover_iscsi_portals example_multipath_host example_iscsi_props [] =
     (Inr [(''10.0.0.1:3260,1'', ''iqn.2010-x:vol1''), (''10.0.0.2:3260,1'', ''iqn.2010-x:vol1'')],
      [Exec example_discovery])"
  by (simp add: discover_iscsi_portals_def example_iscsi_props_def no_props_def truthy_def
      bind_def lift_def subscript_def run_iscsiadm_bare_def execute_eq return_def
      example_multipath_host_def quiet_host_def example_discovery_def [symmetric]
      example_discovered_parsed)

lemma example_targets:
  "multipath_targets example_multipath_host ''iqn.2010-x:vol1''
     [(''10.0.0.1:3260,1'', ''iqn.2010-x:vol1''), (''10.0.0.2:3260,1'', ''iqn.2010-x:vol1'')]
   = [(''10.0.0.1:3260,1'', ''iqn.2010-x:vol1''), (''10.0.0.2:3260,1'', ''iqn.2010-x:vol1'')]"
  by (simp add: multipath_targets_def example_multipath_host_def quiet_host_def)

lemma example_sessions_stage:
  "connect_volume_sessions example_multipath_host True ''default'' example_iscsi_props [] =
     (Inr ([example_iscsi_path], example_iscsi_props),
      [Exec example_discovery,
       Exec (node_command ''iqn.2010-x:vol1'' ''10.0.0.1:3260,1'' []), Exec session_command,
       Exec (login_command ''iqn.2010-x:vol1'' ''10.0.0.1:3260,1''),
       Exec (startup_command ''iqn.2010-x:vol1'' ''10.0.0.1:3260,1'' ''automatic''),
       Exec (node_command ''iqn.2010-x:vol1'' ''10.0.0.2:3260,1'' []), Exec session_command,
       Exec (login_command ''iqn.2010-x:vol1'' ''10.0.0.2:3260,1''),
       Exec (startup_command ''iqn.2010-x:vol1'' ''10.0.0.2:3260,1'' ''automatic''),
       Exec [''iscsiadm'', ''-m'', ''node'', ''--rescan''],
       Exec [''iscsiadm'', ''-m'', ''session'', ''--rescan'']])"
proof -
  have r0: "\<forall>h c. fst (run example_multipath_host h c) = 0"
    by (simp add: example_multipath_host_def quiet_host_def)
  have rs: "\<forall>h. snd (run example_multipath_host h session_command) = []"
    by (simp add: example_multipath_host_def quiet_host_def session_command_def
        example_discovery_def)
  have na: "\<not> truthy (auth_method example_iscsi_props)"
    by (simp add: example_iscsi_props_def no_props_def truthy_def)
  have c: "\<And>ip iqn h. connect_to_iscsi_portal example_multipath_host ''default''
        (example_iscsi_props\<lparr>target_portal := Some ip, target_iqn := Some iqn\<rparr>) h =
     (Inr True, h @ [Exec (node_command iqn ip []), Exec session_command,
                     Exec (login_command iqn ip), Exec (startup_command iqn ip ''automatic'')])"
    by (rule connect_fresh) (simp_all add: na r0 rs)
  have ti: "target_iqns example_iscsi_props = None" "target_iqn example_iscsi_props = Some ''iqn.2010-x:vol1''"
    by (simp_all add: example_iscsi_props_def no_props_def)
  show ?thesis
    by (simp add: connect_volume_sessions_def bind_def example_discover ti lift_def subscript_def
        return_def example_targets c rescan_iscsi_def run_iscsiadm_bare_def execute_eq r0
        observe_def example_device_path)
qed

theorem multipath_fan_out_witness:
  "filter is_probe (commands (drop 1 (snd
       (connect_volume_sessions example_multipath_host True ''default'' example_iscsi_props []))))
     = [node_command ''iqn.2010-x:vol1'' ''10.0.0.1:3260,1'' [],
        node_command ''iqn.2010-x:vol1'' ''10.0.0.2:3260,1'' []]
   \<and> fst (connect_volume_sessions example_multipath_host True ''default'' example_iscsi_props [])
     = Inr ([example_iscsi_path], example_iscsi_props)
   \<and> filter (\<lambda>c. last c = ''--login'') (commands (snd
       (connect_volume_sessions example_multipath_host True ''default'' example_iscsi_props [])))
     = [login_command ''iqn.2010-x:vol1'' ''10.0.0.1:3260,1'',
        login_command ''iqn.2010-x:vol1'' ''10.0.0.2:3260,1'']"
proof -
  let ?found = "[(''10.0.0.1:3260,1'', ''iqn.2010-x:vol1''), (''10.0.0.2:3260,1'', ''iqn.2010-x:vol1'')]"
  have so: "\<forall>xs. distinct (set_order example_multipath_host xs)
      \<and> set (set_order example_multipath_host xs) = set xs"
    by (simp add: example_multipath_host_def quiet_host_def)
  have ti: "target_iqns example_iscsi_props = None \<or> target_iqns example_iscsi_props = Some []"
    and mi: "target_iqn example_iscsi_props = Some ''iqn.2010-x:vol1''"
    by (simp_all add: example_iscsi_props_def no_props_def)
  from multipath_fan_out [OF so ti mi example_discover example_sessions_stage]
  obtain targets where t:
    "card (fst ` set ?found) = card {ip. (ip, ''iqn.2010-x:vol1'') \<in> set ?found} \<longrightarrow>
        set targets = (\<lambda>ip. (ip, ''iqn.2010-x:vol1'')) ` fst ` set ?found \<and> distinct targets"
    "filter is_probe (commands (drop (length [Exec example_discovery])
        (snd (connect_volume_sessions example_multipath_host True ''default'' example_iscsi_props []))))
       = map (\<lambda>(ip, iqn). node_command iqn ip []) targets"
    unfolding example_sessions_stage snd_conv by blast
  have "filter is_probe (commands (drop 1 (snd
       (connect_volume_sessions example_multipath_host True ''default'' example_iscsi_props []))))
     = [node_command ''iqn.2010-x:vol1'' ''10.0.0.1:3260,1'' [],
        node_command ''iqn.2010-x:vol1'' ''10.0.0.2:3260,1'' []]"
  proof -
    have n: "\<not> is_probe example_discovery" "\<not> is_probe session_command"
        "\<not> is_probe [''iscsiadm'', ''-m'', ''node'', ''--rescan'']"
        "\<not> is_probe [''iscsiadm'', ''-m'', ''session'', ''--rescan'']"
      by (simp_all add: is_probe_def session_command_def example_discovery_def node_command_def)
    show ?thesis
      unfolding example_sessions_stage
      by (simp add: n is_probe_node_command login_command_def startup_command_def
          update_command_def)
  qed
  moreover have "filter (\<lambda>c. last c = ''--login'') (commands (snd
       (connect_volume_sessions example_multipath_host True ''default'' example_iscsi_props [])))
     = [login_command ''iqn.2010-x:vol1'' ''10.0.0.1:3260,1'',
        login_command ''iqn.2010-x:vol1'' ''10.0.0.2:3260,1'']"
    unfolding example_sessions_stage
    by (simp add: login_command_def startup_command_def node_command_def session_command_def
        example_discovery_def update_command_def)
  ultimately show ?thesis using t example_sessions_stage by simp
qed

lemma connect_listed:
  assumes "target_iqn props = Some iqn" "target_portal props = Some portal"
    and "\<not> truthy (auth_method props)"
    and "\<forall>h c. fst (run env h c) = 0"
    and "\<forall>h. snd (run env h session_command) = out"
    and "session_entries (splitlines out) = Inr ss"
  shows "connect_to_iscsi_portal env transport props h =
     (Inr True, h @ [Exec (node_command iqn portal []), Exec session_command]
        @ (if \<exists>s \<in> set ss. session_matches props (hd (split_on CHR '','' portal)) s then []
           else [Exec (login_command iqn portal),
                 Exec (startup_command iqn portal ''automatic'')]))"
proof -
  have prep: "prepare_node env transport props h = (Inr (), h @ [Exec (node_command iqn portal [])])"
    unfolding prepare_node_def run_iscsiadm_eq [OF assms(1,2)]
    by (simp add: assms(3,4) bind_def catch_exit_code_def execute_eq return_def)
  show ?thesis
    unfolding connect_to_iscsi_portal_def
    by (simp add: bind_def prep login_unless_session_eq [OF assms(1,2)] assms(4,5,6) Let_def)
qed

lemma example_active_parsed:
  "session_entries (splitlines example_active_session)
     = Inr [(''10.0.0.1:3260,1'', ''iqn.2010-x:vol1'')]"
  by code_simp

lemma example_discover_again:
  "discover_iscsi_portals example_session_host example_iscsi_props [] =
     (Inr [(''10.0.0.1:3260,1'', ''iqn.2010-x:vol1''), (''10.0.0.2:3260,1'', ''iqn.2010-x:vol1'')],
      [Exec example_discovery])"
  by (simp add: discover_iscsi_portals_def example_iscsi_props_def no_props_def truthy_def
      bind_def lift_def subscript_def run_iscsiadm_bare_def execute_eq return_def
      example_session_host_def quiet_host_def example_discovery_def [symmetric]
      example_discovered_parsed)

lemma example_targets_again:
  "multipath_targets example_session_host ''iqn.2010-x:vol1''
     [(''10.0.0.1:3260,1'', ''iqn.2010-x:vol1''), (''10.0.0.2:3260,1'', ''iqn.2010-x:vol1'')]
   = [(''10.0.0.1:3260,1'', ''iqn.2010-x:vol1''), (''10.0.0.2:3260,1'', ''iqn.2010-x:vol1'')]"
  by (simp add: multipath_targets_def example_session_host_def quiet_host_def)

text \<open>
  With a session of the first of two targets already active, the sessions of both targets
  are established and no login to the first one is run.
\<close>

theorem multipath_no_login_counterexample:
  "connect_volume_sessions example_session_host True ''default'' example_iscsi_props [] =
     (Inr ([example_iscsi_path], example_iscsi_props),
      [Exec example_discovery,
       Exec (node_command ''iqn.2010-x:vol1'' ''10.0.0.1:3260,1'' []), Exec session_command,
       Exec (node_command ''iqn.2010-x:vol1'' ''10.0.0.2:3260,1'' []), Exec session_command,
       Exec (login_command ''iqn.2010-x:vol1'' ''10.0.0.2:3260,1''),
       Exec (startup_command ''iqn.2010-x:vol1'' ''10.0.0.2:3260,1'' ''automatic''),
       Exec [''iscsiadm'', ''-m'', ''node'', ''--rescan''],
       Exec [''iscsiadm'', ''-m'', ''session'', ''--rescan'']])
   \<and> login_command ''iqn.2010-x:vol1'' ''10.0.0.1:3260,1''
       \<notin> set (commands (snd (connect_volume_sessions example_session_host True ''default''
                                   example_iscsi_props [])))"
proof -
  have r0: "\<forall>h c. fst (run example_session_host h c) = 0"
    by (simp add: example_session_host_def quiet_host_def)
  have rs: "\<forall>h. snd (run example_session_host h session_command) = example_active_session"
    by (simp add: example_session_host_def quiet_host_def session_command_def
        example_discovery_def)
  have na: "\<not> truthy (auth_method example_iscsi_props)"
    by (simp add: example_iscsi_props_def no_props_def truthy_def)
  have c: "\<And>ip iqn h. connect_to_iscsi_portal example_session_host ''default''
        (example_iscsi_props\<lparr>target_portal := Some ip, target_iqn := Some iqn\<rparr>) h =
     (Inr True, h @ [Exec (node_command iqn ip []), Exec session_command]
        @ (if \<exists>s \<in> set [(''10.0.0.1:3260,1'', ''iqn.2010-x:vol1'')].
                session_matches (example_iscsi_props\<lparr>target_portal := Some ip, target_iqn := Some iqn\<rparr>)
                  (hd (split_on CHR '','' ip)) s then []
           else [Exec (login_command iqn ip), Exec (startup_command iqn ip ''automatic'')]))"
    by (rule connect_listed [OF _ _ _ r0 rs example_active_parsed]) (simp_all add: na)
  have ti: "target_iqns example_iscsi_props = None" "target_iqn example_iscsi_props = Some ''iqn.2010-x:vol1''"
    by (simp_all add: example_iscsi_props_def no_props_def)
  have stage: "connect_volume_sessions example_session_host True ''default'' example_iscsi_props [] =
     (Inr ([example_iscsi_path], example_iscsi_props),
      [Exec example_discovery,
       Exec (node_command ''iqn.2010-x:vol1'' ''10.0.0.1:3260,1'' []), Exec session_command,
       Exec (node_command ''iqn.2010-x:vol1'' ''10.0.0.2:3260,1'' []), Exec session_command,
       Exec (login_command ''iqn.2010-x:vol1'' ''10.0.0.2:3260,1''),
       Exec (startup_command ''iqn.2010-x:vol1'' ''10.0.0.2:3260,1'' ''automatic''),
       Exec [''iscsiadm'', ''-m'', ''node'', ''--rescan''],
       Exec [''iscsiadm'', ''-m'', ''session'', ''--rescan'']])"
    by (simp add: connect_volume_sessions_def bind_def example_discover_again ti lift_def
        subscript_def return_def example_targets_again c session_matches_def rescan_iscsi_def
        run_iscsiadm_bare_def execute_eq r0 observe_def example_device_path)
  have nl: "login_command ''iqn.2010-x:vol1'' ''10.0.0.1:3260,1''
       \<notin> set (commands (snd (connect_volume_sessions example_session_host True ''default''
                                   example_iscsi_props [])))"
    unfolding stage
    by (simp add: login_command_def startup_command_def node_command_def session_command_def
        example_discovery_def update_command_def)
  from stage nl show ?thesis by simp
qed

end
